theory Spec2Isabelle
  imports Main "HOL-Library.Char_ord" "HOL-Library.List_Lexorder"
begin

section \<open>Go values as the encoder sees them through reflection\<close>

text \<open>
  The encoder of \<^verbatim>\<open>encode.go\<close> walks a Go value with package reflect. A
  \<open>gval\<close> is a \<^verbatim>\<open>reflect.Value\<close>: its kind, its contents, and what the
  type switches \<^verbatim>\<open>rv.Interface().(type)\<close> of the encoder see.

  Strings are byte strings, as in Go. A float is given by the pieces of the
  text that \<^verbatim>\<open>strconv.FormatFloat(f, 'f', -1, bits)\<close> prints for it (the
  shortest decimal expansion that reads back as the same float); a
  \<^verbatim>\<open>time.Time\<close> by the text of
  \<^verbatim>\<open>v.In(time.FixedZone("UTC", 0)).Format("2006-01-02T15:04:05Z")\<close>; a value
  whose dynamic type implements \<^verbatim>\<open>TextMarshaler\<close> by the underlying value
  together with the result of \<^verbatim>\<open>MarshalText\<close>. A map is the list of its entries
  in the order \<^verbatim>\<open>rv.MapKeys()\<close> happens to return them.
\<close>

datatype reflect_Kind =
    KInvalid | KBool | KInt | KUint | KFloat | KString | KArray | KSlice
  | KInterface | KMap | KPtr | KStruct | KOther string

datatype gofloat =
    FNaN
  | FInf bool
  | FDec bool "nat list" "nat list"

record StructField =
  Name :: string
  PkgPath :: string
  Anonymous :: bool
  Tag_toml :: string
  Tag_modifier :: string

datatype mapkey = StringKey | NamedStringKey | OtherKey

datatype gval =
    GInvalid
  | GBool bool
  | GInt int
  | GUint nat
  | GFloat gofloat
  | GString string
  | GArray "gval list"
  | GSlice "gval list option"
  | GIface "gval option"
  | GPtr "gval option"
  | GMap mapkey "(string \<times> gval) list option"
  | GStruct "(StructField \<times> gval) list"
  | GTime string
  | GText gval "string + string"
  | GOther string

text \<open>
  \<open>GInvalid\<close> is the zero \<^verbatim>\<open>reflect.Value\<close>; \<open>GInt\<close> holds \<^verbatim>\<open>rv.Int()\<close> of the
  kinds Int to Int64 and \<open>GUint\<close> holds \<^verbatim>\<open>rv.Uint()\<close> of Uint to Uint64;
  \<open>GSlice None\<close>, \<open>GIface None\<close>, \<open>GPtr None\<close> and \<open>GMap _ None\<close> are the nil
  slice, interface, pointer and map. The first argument of \<open>GMap\<close> is the
  key type of the map: the type \<^verbatim>\<open>string\<close> itself, another type of kind String
  (a named string type), or a type of another kind. \<open>GStruct\<close> lists the fields in declaration
  order. \<open>GOther k\<close> is a value of any remaining kind (Chan, Func, Complex128,
  Uintptr, UnsafePointer), \<open>k\<close> being the name of the kind. \<open>GText v r\<close> has the
  kind and the contents of \<open>v\<close>, and \<^verbatim>\<open>MarshalText\<close> returns \<open>r\<close> for it, \<open>Inl\<close>
  being an error. The method set of a pointer type holds the methods of
  its element type, so that a pointer to a \<^verbatim>\<open>time.Time\<close> or to a
  \<^verbatim>\<open>TextMarshaler\<close> is a \<^verbatim>\<open>TextMarshaler\<close> itself and is given as a \<open>GText\<close>.
\<close>

fun Kind :: "gval \<Rightarrow> reflect_Kind" where
  "Kind GInvalid = KInvalid"
| "Kind (GBool _) = KBool"
| "Kind (GInt _) = KInt"
| "Kind (GUint _) = KUint"
| "Kind (GFloat _) = KFloat"
| "Kind (GString _) = KString"
| "Kind (GArray _) = KArray"
| "Kind (GSlice _) = KSlice"
| "Kind (GIface _) = KInterface"
| "Kind (GPtr _) = KPtr"
| "Kind (GMap _ _) = KMap"
| "Kind (GStruct _) = KStruct"
| "Kind (GTime _) = KStruct"
| "Kind (GText v _) = Kind v"
| "Kind (GOther k) = KOther k"

definition IsValid :: "gval \<Rightarrow> bool" where
  "IsValid rv = (Kind rv \<noteq> KInvalid)"

text \<open>\<^verbatim>\<open>rv.Elem()\<close> of a pointer or interface; the zero Value when it is nil.\<close>

fun Elem :: "gval \<Rightarrow> gval" where
  "Elem (GIface (Some v)) = v"
| "Elem (GPtr (Some v)) = v"
| "Elem (GText v _) = Elem v"
| "Elem _ = GInvalid"

text \<open>The values \<^verbatim>\<open>rv.Index(0)\<close>, ..., \<^verbatim>\<open>rv.Index(rv.Len()-1)\<close> of an array or slice.\<close>

fun elems :: "gval \<Rightarrow> gval list" where
  "elems (GArray xs) = xs"
| "elems (GSlice (Some xs)) = xs"
| "elems (GText v _) = elems v"
| "elems _ = []"

text \<open>The fields of a struct. Every field of \<^verbatim>\<open>time.Time\<close> is unexported, and
  the encoder skips unexported fields, so \<open>GTime\<close> shows none.\<close>

fun fieldsOf :: "gval \<Rightarrow> (StructField \<times> gval) list" where
  "fieldsOf (GStruct fs) = fs"
| "fieldsOf (GText v _) = fieldsOf v"
| "fieldsOf _ = []"

text \<open>What \<^verbatim>\<open>switch rv.Interface().(type) { case time.Time: ... case TextMarshaler: ... }\<close>
  selects. \<^verbatim>\<open>Interface()\<close> of an interface-kind Value yields the value it holds.\<close>

datatype dyntype = IsTime string | IsTextMarshaler "string + string" | IsOther

fun typeSwitch :: "gval \<Rightarrow> dyntype" where
  "typeSwitch (GTime s) = IsTime s"
| "typeSwitch (GText v r) = IsTextMarshaler r"
| "typeSwitch (GIface (Some v)) = typeSwitch v"
| "typeSwitch _ = IsOther"

section \<open>Errors\<close>

text \<open>
  The encoder aborts by panicking. \<^verbatim>\<open>encPanic\<close> wraps an error in
  \<^verbatim>\<open>tomlEncodeError\<close>, which \<^verbatim>\<open>safeEncode\<close> recovers and returns; every other
  panic (a bare \<^verbatim>\<open>panic(...)\<close> of the encoder, or one raised by reflect or
  strings) is raised again by \<^verbatim>\<open>safeEncode\<close>.
\<close>

datatype error =
    errArrayMixedElementTypes
  | errArrayNilElement
  | errNonString
  | errAnonNonStruct
  | errArrayNoTable
  | errNoKey
  | errInvalidTableName string
  | errInvalidKeyName string
  | errMarshalText string

datatype abort = EncPanic error | Panic string

definition bindE :: "abort + 'a \<Rightarrow> ('a \<Rightarrow> abort + 'b) \<Rightarrow> abort + 'b" where
  "bindE m f = (case m of Inl a \<Rightarrow> Inl a | Inr x \<Rightarrow> f x)"

lemma bindE_Inl [simp]: "bindE (Inl a) f = Inl a"
  by (simp add: bindE_def)

lemma bindE_Inr [simp]: "bindE (Inr x) f = f x"
  by (simp add: bindE_def)

lemma bindE_cong [fundef_cong]:
  "m = m' \<Longrightarrow> (\<And>x. m' = Inr x \<Longrightarrow> f x = f' x) \<Longrightarrow> bindE m f = bindE m' f'"
  by (cases m') (simp_all add: bindE_def)

lemma bindE_eq_Inr: "bindE m f = Inr y \<longleftrightarrow> (\<exists>x. m = Inr x \<and> f x = Inr y)"
  by (cases m) simp_all

lemma bindE_eq_Inl: "bindE m f = Inl a \<longleftrightarrow> m = Inl a \<or> (\<exists>x. m = Inr x \<and> f x = Inl a)"
  by (cases m) simp_all

lemma bindE_assoc: "bindE (bindE m f) g = bindE m (\<lambda>x. bindE (f x) g)"
  by (cases m) simp_all

section \<open>TOML types\<close>

text \<open>
  Modelled from the spec: the type \<^verbatim>\<open>tomlType\<close>, its values \<^verbatim>\<open>tomlBool\<close> ...
  \<^verbatim>\<open>tomlArrayHash\<close> and the functions \<^verbatim>\<open>typeEqual\<close> and \<^verbatim>\<open>typeIsHash\<close> are
  declared outside \<^verbatim>\<open>encode.go\<close>. The spec's semantic kind is a closed tag over
  boolean, integer, float, string, datetime, array, array-of-tables and
  table, with "absent" for a value that has none (Go's nil \<^verbatim>\<open>tomlType\<close>, here
  \<open>None\<close>). Two kinds are equal when both are present and are the same tag; a
  sub entry is one whose kind is table or array-of-tables.
\<close>

datatype tomlType =
    tomlInteger | tomlFloat | tomlDatetime | tomlString | tomlBool
  | tomlArray | tomlHash | tomlArrayHash

definition typeEqual :: "tomlType option \<Rightarrow> tomlType option \<Rightarrow> bool" where
  "typeEqual t1 t2 = (case (t1, t2) of (Some a, Some b) \<Rightarrow> a = b | _ \<Rightarrow> False)"

definition typeIsHash :: "tomlType option \<Rightarrow> bool" where
  "typeIsHash t = (typeEqual t (Some tomlHash) \<or> typeEqual t (Some tomlArrayHash))"

section \<open>Classifying values\<close>

fun isNil :: "gval \<Rightarrow> bool" where
  "isNil (GIface None) = True"
| "isNil (GMap _ None) = True"
| "isNil (GPtr None) = True"
| "isNil (GSlice None) = True"
| "isNil (GText v _) = isNil v"
| "isNil _ = False"

fun eindirect :: "gval \<Rightarrow> gval" where
  "eindirect (GPtr (Some v)) = eindirect v"
| "eindirect (GPtr None) = GInvalid"
| "eindirect (GIface (Some v)) = eindirect v"
| "eindirect (GIface None) = GInvalid"
| "eindirect (GText v r) =
     (if Kind v = KPtr \<or> Kind v = KInterface then eindirect v else GText v r)"
| "eindirect v = v"

lemma size_Elem: "Kind rv = KPtr \<or> Kind rv = KInterface \<Longrightarrow> \<not> isNil rv \<Longrightarrow> size (Elem rv) < size rv"
  by (induction rv rule: Elem.induct) auto

lemma size_Elem_le: "size (Elem rv) \<le> size rv"
  by (induction rv rule: Elem.induct) auto

lemma size_eindirect: "size (eindirect rv) \<le> size rv"
  by (induction rv rule: eindirect.induct) auto

lemma size_list_elems: "size_list size (elems rv) < size rv \<or> elems rv = []"
  by (induction rv rule: elems.induct) auto

lemma size_elems: "x \<in> set (elems rv) \<Longrightarrow> size x < size rv"
proof -
  assume a: "x \<in> set (elems rv)"
  then have "size x \<le> size_list size (elems rv)"
    by (simp add: size_list_estimation')
  with a size_list_elems [of rv] show ?thesis by auto
qed

text \<open>
  \<^verbatim>\<open>tomlTypeOfGo\<close>, \<^verbatim>\<open>tomlArrayType\<close> and the loop of \<^verbatim>\<open>tomlArrayType\<close> over the
  elements 1, 2, ... (\<open>tomlArrayLoop\<close>). \<^verbatim>\<open>tomlArrayType\<close> is only applied to
  values of kind Array or Slice: by \<^verbatim>\<open>tomlTypeOfGo\<close> in its Array/Slice case,
  and by itself to element 0 once that element has the type \<^verbatim>\<open>tomlArray\<close> or
  \<^verbatim>\<open>tomlArrayHash\<close>. On a value of another kind reflect's \<^verbatim>\<open>Len\<close> or \<^verbatim>\<open>Index\<close>
  panics.
\<close>

function tomlTypeOfGo :: "gval \<Rightarrow> abort + tomlType option"
  and tomlArrayType :: "gval \<Rightarrow> abort + tomlType option"
  and tomlArrayLoop :: "tomlType option \<Rightarrow> gval list \<Rightarrow> abort + unit"
where
  "tomlTypeOfGo rv =
     (if isNil rv \<or> \<not> IsValid rv then Inr None
      else case Kind rv of
        KBool \<Rightarrow> Inr (Some tomlBool)
      | KInt \<Rightarrow> Inr (Some tomlInteger)
      | KUint \<Rightarrow> Inr (Some tomlInteger)
      | KFloat \<Rightarrow> Inr (Some tomlFloat)
      | KArray \<Rightarrow>
          bindE (tomlArrayType rv) (\<lambda>t.
            if typeEqual (Some tomlHash) t then Inr (Some tomlArrayHash)
            else Inr (Some tomlArray))
      | KSlice \<Rightarrow>
          bindE (tomlArrayType rv) (\<lambda>t.
            if typeEqual (Some tomlHash) t then Inr (Some tomlArrayHash)
            else Inr (Some tomlArray))
      | KPtr \<Rightarrow> tomlTypeOfGo (Elem rv)
      | KInterface \<Rightarrow> tomlTypeOfGo (Elem rv)
      | KString \<Rightarrow> Inr (Some tomlString)
      | KMap \<Rightarrow> Inr (Some tomlHash)
      | KStruct \<Rightarrow>
          (case typeSwitch rv of
             IsTime _ \<Rightarrow> Inr (Some tomlDatetime)
           | IsTextMarshaler _ \<Rightarrow> Inr (Some tomlString)
           | IsOther \<Rightarrow> Inr (Some tomlHash))
      | KInvalid \<Rightarrow> Inl (Panic ''unexpected reflect.Kind: invalid'')
      | KOther k \<Rightarrow> Inl (Panic (''unexpected reflect.Kind: '' @ k)))"
| "tomlArrayType rv =
     (if isNil rv \<or> \<not> IsValid rv then Inr None
      else if Kind rv \<noteq> KArray \<and> Kind rv \<noteq> KSlice
      then Inl (Panic ''reflect: call of reflect.Value.Len or Index on a value that is no array'')
      else case elems rv of
        [] \<Rightarrow> Inr None
      | x # xs \<Rightarrow>
          bindE (tomlTypeOfGo x) (\<lambda>firstType.
            if firstType = None then Inl (EncPanic errArrayNilElement)
            else bindE (tomlArrayLoop firstType xs) (\<lambda>_.
              if typeEqual firstType (Some tomlArray) \<or> typeEqual firstType (Some tomlArrayHash)
              then bindE (tomlArrayType (eindirect x)) (\<lambda>nest.
                     if typeEqual nest (Some tomlHash) \<or> typeEqual nest (Some tomlArrayHash)
                     then Inl (EncPanic errArrayNoTable)
                     else Inr firstType)
              else Inr firstType)))"
| "tomlArrayLoop firstType [] = Inr ()"
| "tomlArrayLoop firstType (elem # rest) =
     bindE (tomlTypeOfGo elem) (\<lambda>elemType.
       if elemType = None then Inl (EncPanic errArrayNilElement)
       else if \<not> typeEqual firstType elemType then Inl (EncPanic errArrayMixedElementTypes)
       else tomlArrayLoop firstType rest)"
  by pat_completeness auto

termination
proof (relation "measure (\<lambda>x. case x of
          Inl rv \<Rightarrow> 2 * size rv + 1
        | Inr (Inl rv) \<Rightarrow> 2 * size rv
        | Inr (Inr (_, xs)) \<Rightarrow> 2 * size_list size xs + 1)", goal_cases)
  case 1
  then show ?case by simp
next
  case (2 rv)
  then show ?case by simp
next
  case (3 rv)
  then show ?case by simp
next
  case (4 rv)
  then show ?case using size_Elem [of rv] by simp
next
  case (5 rv)
  then show ?case using size_Elem [of rv] by simp
next
  case (6 rv x xs)
  then show ?case using size_elems [of x rv] by simp
next
  case (7 rv x xs)
  then show ?case using size_list_elems [of rv] by simp
next
  case (8 rv x xs)
  then show ?case using size_elems [of x rv] size_eindirect [of x] by simp
next
  case (9 firstType elem rest)
  then show ?case by simp
next
  case (10 firstType elem rest)
  then show ?case by simp
qed

declare tomlTypeOfGo.simps [simp del] tomlArrayType.simps [simp del]


section \<open>Scalars as text\<close>

abbreviation (input) TAB :: char where "TAB \<equiv> CHR 0x09"
abbreviation (input) LF :: char where "LF \<equiv> CHR 0x0A"
abbreviation (input) CR :: char where "CR \<equiv> CHR 0x0D"
abbreviation (input) DQUOTE :: char where "DQUOTE \<equiv> CHR 0x22"
abbreviation (input) SQUOTE :: char where "SQUOTE \<equiv> CHR 0x27"
abbreviation (input) BACKSLASH :: char where "BACKSLASH \<equiv> CHR 0x5C"
abbreviation (input) PERCENT :: char where "PERCENT \<equiv> CHR 0x25"

text \<open>\<^verbatim>\<open>strconv.FormatBool\<close>, \<^verbatim>\<open>strconv.FormatUint(u, 10)\<close>, \<^verbatim>\<open>strconv.FormatInt(i, 10)\<close>
  and \<^verbatim>\<open>strconv.FormatFloat(f, 'f', -1, bits)\<close> of Go's library.\<close>

definition FormatBool :: "bool \<Rightarrow> string" where
  "FormatBool b = (if b then ''true'' else ''false'')"

definition digitChar :: "nat \<Rightarrow> char" where
  "digitChar d = ''0123456789'' ! (d mod 10)"

function FormatUint :: "nat \<Rightarrow> string" where
  "FormatUint n = (if n < 10 then [digitChar n] else FormatUint (n div 10) @ [digitChar (n mod 10)])"
  by pat_completeness auto

termination
  by (relation "measure id") auto

declare FormatUint.simps [simp del]

definition FormatInt :: "int \<Rightarrow> string" where
  "FormatInt i = (if i < 0 then CHR ''-'' # FormatUint (nat (- i)) else FormatUint (nat i))"

fun FormatFloat :: "gofloat \<Rightarrow> string" where
  "FormatFloat FNaN = ''NaN''"
| "FormatFloat (FInf neg) = (if neg then ''-Inf'' else ''+Inf'')"
| "FormatFloat (FDec neg ds fs) =
     (if neg then ''-'' else []) @ map digitChar ds @
     (if fs = [] then [] else CHR ''.'' # map digitChar fs)"

definition floatAddDecimal :: "string \<Rightarrow> string" where
  "floatAddDecimal fstr = (if CHR ''.'' \<notin> set fstr then fstr @ ''.0'' else fstr)"

text \<open>\<^verbatim>\<open>quotedReplacer\<close> replaces single bytes, so \<^verbatim>\<open>Replace\<close> maps every byte of
  the string on its own.\<close>

definition quotedReplacer_byte :: "char \<Rightarrow> string" where
  "quotedReplacer_byte c =
     (if c = TAB then [BACKSLASH, CHR ''t'']
      else if c = LF then [BACKSLASH, CHR ''n'']
      else if c = CR then [BACKSLASH, CHR ''r'']
      else if c = DQUOTE then [BACKSLASH, DQUOTE]
      else if c = BACKSLASH then [BACKSLASH, BACKSLASH]
      else [c])"

definition quotedReplacer_Replace :: "string \<Rightarrow> string" where
  "quotedReplacer_Replace s = concat (map quotedReplacer_byte s)"

section \<open>Key paths\<close>

text \<open>
  Modelled from the spec: the type \<^verbatim>\<open>Key\<close> with its methods \<^verbatim>\<open>String\<close> and
  \<^verbatim>\<open>add\<close> is declared outside \<^verbatim>\<open>encode.go\<close>. The spec: a key path is an ordered
  sequence of string segments; a header shows the dotted path; a path is
  created by appending one segment to the parent path, which is left as it
  was.
\<close>

type_synonym Key = "string list"

fun Key_String :: "Key \<Rightarrow> string" where
  "Key_String [] = []"
| "Key_String [k] = k"
| "Key_String (k # ks) = k @ ''.'' @ Key_String ks"

definition Key_add :: "Key \<Rightarrow> string \<Rightarrow> Key" where
  "Key_add key piece = key @ [piece]"

text \<open>The loop \<^verbatim>\<open>for _, r := range s\<close> of \<^verbatim>\<open>isValidTableName\<close> decodes runes;
  a byte below 0x80 is always a rune of its own and no other rune is below
  0x80, so a rune is one of \<^verbatim>\<open>[ ] .\<close> exactly where a byte is.\<close>

definition isValidTableName :: "string \<Rightarrow> bool" where
  "isValidTableName s =
     (if length s = 0 then False
      else CHR ''['' \<notin> set s \<and> CHR '']'' \<notin> set s \<and> CHR ''.'' \<notin> set s)"

definition isValidKeyName :: "string \<Rightarrow> bool" where
  "isValidKeyName s = (if length s = 0 then False else True)"

definition panicIfInvalidKey :: "Key \<Rightarrow> bool \<Rightarrow> abort + unit" where
  "panicIfInvalidKey key hash =
     (if hash then
        (if list_all isValidTableName key then Inr ()
         else Inl (EncPanic (errInvalidTableName (Key_String key))))
      else if key = [] then Inl (Panic ''runtime error: index out of range'')
      else if isValidKeyName (last key) then Inr ()
      else Inl (EncPanic (errInvalidKeyName (Key_String key))))"

section \<open>The encoder\<close>

type_synonym Modifier = string

definition MOD_NONE :: Modifier where
  "MOD_NONE = []"

definition MOD_MULTILINE_STRING :: Modifier where
  "MOD_MULTILINE_STRING = ''multiline_string''"

definition MOD_MULTILINE_RAWSTRING :: Modifier where
  "MOD_MULTILINE_RAWSTRING = ''multiline_rawstring''"

definition validmodifiers :: "Modifier \<Rightarrow> reflect_Kind option" where
  "validmodifiers m =
     (if m = MOD_MULTILINE_STRING then Some KString
      else if m = MOD_MULTILINE_RAWSTRING then Some KString
      else None)"

text \<open>
  The field \<open>w\<close> is the text written so far. The \<^verbatim>\<open>io.Writer\<close> behind
  \<^verbatim>\<open>enc.w\<close> is not part of the repository; here it takes every write, so
  that the branch of \<^verbatim>\<open>wf\<close> that panics with the writer's error is never
  taken.
\<close>

record Encoder =
  Indent :: string
  hasWritten :: bool
  w :: string
  modifier :: Modifier

definition NewEncoder :: Encoder where
  "NewEncoder = \<lparr>Indent = ''  '', hasWritten = False, w = [], modifier = MOD_NONE\<rparr>"

text \<open>
  \<open>wf enc text\<close> is \<^verbatim>\<open>enc.wf(format, v...)\<close> where \<open>text\<close> is what
  \<^verbatim>\<open>fmt.Fprintf\<close> makes of the format and its operands. Formats that are
  constants of the encoder (\<^verbatim>\<open>"%s[[%s]]"\<close> and the like) are expanded where
  they occur. Where the encoder passes a computed string as the format,
  with no operand, \<open>Fprintf0\<close> gives the text: a format free of \<^verbatim>\<open>%\<close> is
  copied as it is; what \<^verbatim>\<open>fmt\<close> makes of a format that holds \<^verbatim>\<open>%\<close> is the
  parameter \<open>verbs\<close> of the development.
\<close>

definition wf :: "Encoder \<Rightarrow> string \<Rightarrow> Encoder" where
  "wf enc text = enc\<lparr>w := w enc @ text, hasWritten := True\<rparr>"

definition Fprintf0 :: "(string \<Rightarrow> string) \<Rightarrow> string \<Rightarrow> string" where
  "Fprintf0 verbs format = (if PERCENT \<in> set format then verbs format else format)"

definition newline :: "Encoder \<Rightarrow> Encoder" where
  "newline enc = (if hasWritten enc then wf enc [LF] else enc)"

text \<open>\<^verbatim>\<open>strings.Repeat\<close> panics when the count is negative.\<close>

definition indentStr :: "Encoder \<Rightarrow> Key \<Rightarrow> abort + string" where
  "indentStr enc key =
     (if length key = 0 then Inl (Panic ''strings: negative Repeat count'')
      else Inr (concat (replicate (length key - 1) (Indent enc))))"

definition writeQuoted :: "string \<Rightarrow> Encoder \<Rightarrow> Encoder" where
  "writeQuoted s enc = wf enc ([DQUOTE] @ quotedReplacer_Replace s @ [DQUOTE])"

definition writeMultiLineString :: "(string \<Rightarrow> string) \<Rightarrow> string \<Rightarrow> bool \<Rightarrow> Encoder \<Rightarrow> Encoder" where
  "writeMultiLineString verbs s raw enc =
     (let marker = (if raw then [SQUOTE, SQUOTE, SQUOTE] else [DQUOTE, DQUOTE, DQUOTE]);
          enc1 = wf enc marker;
          enc2 = (if raw then wf enc1 (Fprintf0 verbs (s @ '' ''))
                  else wf enc1 (Fprintf0 verbs (quotedReplacer_Replace s)))
      in wf enc2 marker)"

text \<open>\<^verbatim>\<open>eElement\<close> with \<^verbatim>\<open>eArrayOrSliceElement\<close>; \<open>eElementsLoop\<close> is the loop of
  the latter, which writes \<^verbatim>\<open>", "\<close> after every element but the last.\<close>

function eElement :: "(string \<Rightarrow> string) \<Rightarrow> gval \<Rightarrow> Encoder \<Rightarrow> abort + Encoder"
  and eArrayOrSliceElement :: "(string \<Rightarrow> string) \<Rightarrow> gval \<Rightarrow> Encoder \<Rightarrow> abort + Encoder"
  and eElementsLoop :: "(string \<Rightarrow> string) \<Rightarrow> gval list \<Rightarrow> Encoder \<Rightarrow> abort + Encoder"
where
  "eElement verbs rv enc =
     (if Kind rv = KInvalid
      then Inl (Panic ''reflect: call of reflect.Value.Interface on zero Value'')
      else case typeSwitch rv of
        IsTime s \<Rightarrow> Inr (wf enc (Fprintf0 verbs s))
      | IsTextMarshaler r \<Rightarrow>
          (case r of
             Inl err \<Rightarrow> Inl (EncPanic (errMarshalText err))
           | Inr s \<Rightarrow> Inr (writeQuoted s enc))
      | IsOther \<Rightarrow>
          (case rv of
             GBool b \<Rightarrow> Inr (wf enc (Fprintf0 verbs (FormatBool b)))
           | GInt i \<Rightarrow> Inr (wf enc (Fprintf0 verbs (FormatInt i)))
           | GUint u \<Rightarrow> Inr (wf enc (Fprintf0 verbs (FormatUint u)))
           | GFloat f \<Rightarrow> Inr (wf enc (Fprintf0 verbs (floatAddDecimal (FormatFloat f))))
           | GArray _ \<Rightarrow> eArrayOrSliceElement verbs rv enc
           | GSlice _ \<Rightarrow> eArrayOrSliceElement verbs rv enc
           | GIface _ \<Rightarrow> eElement verbs (Elem rv) enc
           | GString s \<Rightarrow> Inr (writeQuoted s enc)
           | GInvalid \<Rightarrow> Inl (Panic ''toml: Unexpected primitive type: invalid'')
           | GPtr _ \<Rightarrow> Inl (Panic ''toml: Unexpected primitive type: ptr'')
           | GMap _ _ \<Rightarrow> Inl (Panic ''toml: Unexpected primitive type: map'')
           | GStruct _ \<Rightarrow> Inl (Panic ''toml: Unexpected primitive type: struct'')
           | GTime _ \<Rightarrow> Inl (Panic ''toml: Unexpected primitive type: struct'')
           | GText _ _ \<Rightarrow> Inl (Panic ''toml: Unexpected primitive type'')
           | GOther k \<Rightarrow> Inl (Panic (''toml: Unexpected primitive type: '' @ k))))"
| "eArrayOrSliceElement verbs rv enc =
     bindE (eElementsLoop verbs (elems rv) (wf enc ''['')) (\<lambda>enc'. Inr (wf enc' '']''))"
| "eElementsLoop verbs [] enc = Inr enc"
| "eElementsLoop verbs (elem # rest) enc =
     bindE (eElement verbs elem enc) (\<lambda>enc'.
       if rest \<noteq> [] then eElementsLoop verbs rest (wf enc' '', '')
       else eElementsLoop verbs rest enc')"
  by pat_completeness auto

termination
proof (relation "measure (\<lambda>x. case x of
          Inl (_, rv, _) \<Rightarrow> 3 * size rv + 2
        | Inr (Inl (_, rv, _)) \<Rightarrow> 3 * size rv + 1
        | Inr (Inr (_, xs, _)) \<Rightarrow> 3 * size_list size xs)", goal_cases)
  case 1
  then show ?case by simp
next
  case (2 verbs rv enc)
  then show ?case by simp
next
  case (3 verbs rv enc)
  then show ?case by simp
next
  case (4 verbs rv enc x)
  then show ?case by (cases x) simp_all
next
  case (5 verbs rv enc)
  then show ?case using size_list_elems [of rv] by auto
next
  case (6 verbs elem rest enc)
  then show ?case by simp
next
  case (7 verbs elem rest enc)
  then show ?case by simp
next
  case (8 verbs elem rest enc)
  then show ?case by simp
qed

declare eElement.simps [simp del] eArrayOrSliceElement.simps [simp del]

text \<open>\<^verbatim>\<open>val.String()\<close>: the string itself for a value of kind String, and
  otherwise reflect's \<^verbatim>\<open>"<T Value>"\<close> with the type \<^verbatim>\<open>T\<close> of the value, of which
  the model knows the kind only.\<close>

fun Value_String :: "gval \<Rightarrow> string" where
  "Value_String (GString s) = s"
| "Value_String (GText v _) = Value_String v"
| "Value_String GInvalid = ''<invalid Value>''"
| "Value_String _ = ''<T Value>''"

definition keyEqElement :: "(string \<Rightarrow> string) \<Rightarrow> Key \<Rightarrow> gval \<Rightarrow> Encoder \<Rightarrow> abort + Encoder" where
  "keyEqElement verbs key val enc =
     (if length key = 0 then Inl (EncPanic errNoKey)
      else bindE (panicIfInvalidKey key False) (\<lambda>_.
        bindE (indentStr enc key) (\<lambda>ind.
          let enc1 = wf enc (ind @ last key @ '' = '') in
          bindE (if modifier enc1 = MOD_MULTILINE_STRING
                 then Inr (writeMultiLineString verbs (Value_String val) False enc1)
                 else if modifier enc1 = MOD_MULTILINE_RAWSTRING
                 then Inr (writeMultiLineString verbs (Value_String val) True enc1)
                 else eElement verbs val enc1) (\<lambda>enc2.
            Inr ((newline enc2)\<lparr>modifier := MOD_NONE\<rparr>)))))"


section \<open>Tables\<close>

text \<open>The entries of a map: \<^verbatim>\<open>rv.MapKeys()\<close> and \<^verbatim>\<open>rv.MapIndex(k)\<close>, which is the
  zero Value for a key the map does not hold.\<close>

fun mapEntries :: "gval \<Rightarrow> (string \<times> gval) list" where
  "mapEntries (GMap _ (Some es)) = es"
| "mapEntries (GText v _) = mapEntries v"
| "mapEntries _ = []"

fun keyType :: "gval \<Rightarrow> mapkey" where
  "keyType (GMap k _) = k"
| "keyType (GText v _) = keyType v"
| "keyType _ = OtherKey"

definition MapKeys :: "(string \<times> gval) list \<Rightarrow> string list" where
  "MapKeys es = map fst es"

definition MapIndex :: "(string \<times> gval) list \<Rightarrow> string \<Rightarrow> gval" where
  "MapIndex es k = (case map_of es k of Some v \<Rightarrow> v | None \<Rightarrow> GInvalid)"

text \<open>\<^verbatim>\<open>rv.MapIndex(reflect.ValueOf(mapKey))\<close> with \<^verbatim>\<open>mapKey\<close> a Go \<^verbatim>\<open>string\<close>, as
  \<^verbatim>\<open>writeMapKeys\<close> calls it: reflect panics unless a \<^verbatim>\<open>string\<close> is assignable to
  the key type of the map, that is, unless the key type is \<^verbatim>\<open>string\<close> itself.\<close>

definition MapIndexOfString :: "gval \<Rightarrow> string \<Rightarrow> abort + gval" where
  "MapIndexOfString rv k =
     (if keyType rv = StringKey then Inr (MapIndex (mapEntries rv) k)
      else Inl (Panic ''reflect.Value.MapIndex: value of type string is not assignable to the key type''))"

text \<open>The first loop of \<^verbatim>\<open>eMap\<close>, which sorts the keys into
  \<^verbatim>\<open>mapKeysDirect\<close> and \<^verbatim>\<open>mapKeysSub\<close>.\<close>

fun mapKeysSplit ::
  "(string \<times> gval) list \<Rightarrow> string list \<Rightarrow> string list \<times> string list \<Rightarrow>
   abort + string list \<times> string list" where
  "mapKeysSplit es [] acc = Inr acc"
| "mapKeysSplit es (k # ks) acc =
     bindE (tomlTypeOfGo (MapIndex es k)) (\<lambda>t.
       if typeIsHash t then mapKeysSplit es ks (fst acc, snd acc @ [k])
       else mapKeysSplit es ks (fst acc @ [k], snd acc))"

text \<open>
  Fields of structs. \<^verbatim>\<open>v.Field(x)\<close> panics unless \<open>v\<close> is a struct with more
  than \<open>x\<close> fields. \<^verbatim>\<open>FieldByIndex\<close> walks an index path; from the second
  index on it steps through a pointer to a struct, panicking when the
  pointer is nil. The encoder calls it on the type, for the
  \<^verbatim>\<open>StructField\<close>, and on the value; here the two walks are one, and a
  panic of either is a panic.
\<close>

definition Field :: "gval \<Rightarrow> nat \<Rightarrow> abort + StructField \<times> gval" where
  "Field v x =
     (if Kind v \<noteq> KStruct then Inl (Panic ''reflect: call of reflect.Value.Field on a value that is no struct'')
      else if x < length (fieldsOf v) then Inr (fieldsOf v ! x)
      else Inl (Panic ''reflect: Field index out of range''))"

fun FieldByIndexFrom :: "StructField \<times> gval \<Rightarrow> nat list \<Rightarrow> abort + StructField \<times> gval" where
  "FieldByIndexFrom fv [] = Inr fv"
| "FieldByIndexFrom fv (x # xs) =
     (if Kind (snd fv) = KPtr \<and> isNil (snd fv)
      then Inl (Panic ''reflect: indirection through nil pointer to embedded struct'')
      else if Kind (snd fv) = KPtr \<and> Kind (Elem (snd fv)) = KStruct
      then bindE (Field (Elem (snd fv)) x) (\<lambda>fv'. FieldByIndexFrom fv' xs)
      else bindE (Field (snd fv) x) (\<lambda>fv'. FieldByIndexFrom fv' xs))"

definition FieldByIndex :: "gval \<Rightarrow> nat list \<Rightarrow> abort + StructField \<times> gval" where
  "FieldByIndex rv index =
     (case index of
        [] \<Rightarrow> Inl (Panic ''FieldByIndex: no index'')
      | x # xs \<Rightarrow> bindE (Field rv x) (\<lambda>fv. FieldByIndexFrom fv xs))"

lemma size_fieldsOf: "fv \<in> set (fieldsOf v) \<Longrightarrow> size (snd fv) < size v"
proof (induction v rule: fieldsOf.induct)
  case (1 fs)
  then have "size_prod (\<lambda>_. 0) size fv \<le> size_list (size_prod (\<lambda>_. 0) size) fs"
    by (simp add: size_list_estimation')
  then show ?case by (cases fv) simp
qed auto

lemma size_list_fieldsOf: "size_list (size_prod (\<lambda>_. 0) size) (fieldsOf v) \<le> size v"
  by (induction v rule: fieldsOf.induct) auto

lemma size_Field: "Field v x = Inr fv \<Longrightarrow> size (snd fv) < size v"
  using size_fieldsOf [of fv v] by (auto simp: Field_def split: if_splits)

lemma size_FieldByIndexFrom: "FieldByIndexFrom fv xs = Inr fv' \<Longrightarrow> size (snd fv') \<le> size (snd fv)"
proof (induction xs arbitrary: fv)
  case Nil
  then show ?case by simp
next
  case (Cons x xs)
  from Cons.prems obtain m where
    m: "Field (Elem (snd fv)) x = Inr m \<or> Field (snd fv) x = Inr m" and r: "FieldByIndexFrom m xs = Inr fv'"
    by (auto simp: bindE_eq_Inr split: if_splits)
  from m have "size (snd m) < size (snd fv)"
    using size_Field [of "Elem (snd fv)" x m] size_Field [of "snd fv" x m] size_Elem_le [of "snd fv"]
    by auto
  with Cons.IH [OF r] show ?case by simp
qed

lemma size_FieldByIndex: "FieldByIndex rv index = Inr fv \<Longrightarrow> size (snd fv) < size rv"
proof -
  assume a: "FieldByIndex rv index = Inr fv"
  then obtain x xs m where "Field rv x = Inr m" and "FieldByIndexFrom m xs = Inr fv"
    by (auto simp: FieldByIndex_def bindE_eq_Inr split: list.splits)
  then show ?thesis
    using size_Field [of rv x m] size_FieldByIndexFrom [of m xs fv] by simp
qed

lemma size_MapIndex: "size (MapIndex es k) < Suc (size_list (size_prod (\<lambda>_. 0) size) es)"
proof (cases "map_of es k")
  case None
  then show ?thesis by (simp add: MapIndex_def)
next
  case (Some v)
  then have "(k, v) \<in> set es" by (rule map_of_SomeD)
  then have "size_prod (\<lambda>_. 0) size (k, v) \<le> size_list (size_prod (\<lambda>_. 0) size) es"
    by (simp add: size_list_estimation')
  with Some show ?thesis by (simp add: MapIndex_def)
qed

lemma keyType_KMap: "keyType rv \<noteq> OtherKey \<Longrightarrow> Kind rv = KMap"
  by (induction rv rule: keyType.induct) auto

lemma size_mapEntries: "Kind rv = KMap \<Longrightarrow> size_list (size_prod (\<lambda>_. 0) size) (mapEntries rv) < size rv"
  by (induction rv rule: mapEntries.induct) auto

text \<open>
  The function \<^verbatim>\<open>addFields\<close> inside \<^verbatim>\<open>eStruct\<close>. The third argument is what
  is left of the fields of \<open>rt\<close>, \<open>i\<close> being the index of the first of them;
  the last argument holds \<^verbatim>\<open>fieldsDirect\<close> and \<^verbatim>\<open>fieldsSub\<close>. The index of a
  field \<open>f\<close> taken with \<^verbatim>\<open>rt.Field(i)\<close> is \<^verbatim>\<open>f.Index = [i]\<close>, and that is what
  the call for an anonymous field passes as the new \<open>start\<close>.
\<close>

function addFields ::
  "nat list \<Rightarrow> nat \<Rightarrow> (StructField \<times> gval) list \<Rightarrow> nat list list \<times> nat list list \<Rightarrow>
   abort + nat list list \<times> nat list list" where
  "addFields start i [] acc = Inr acc"
| "addFields start i (ffrv # rest) acc =
     (if PkgPath (fst ffrv) \<noteq> [] then addFields start (Suc i) rest acc
      else if Anonymous (fst ffrv) then
        (if Kind (eindirect (snd ffrv)) = KInvalid
         then Inl (Panic ''reflect: call of reflect.Value.Type on zero Value'')
         else if Kind (eindirect (snd ffrv)) \<noteq> KStruct then Inl (EncPanic errAnonNonStruct)
         else bindE (addFields [i] 0 (fieldsOf (eindirect (snd ffrv))) acc) (\<lambda>acc'.
                addFields start (Suc i) rest acc'))
      else bindE (tomlTypeOfGo (snd ffrv)) (\<lambda>t.
             if typeIsHash t then addFields start (Suc i) rest (fst acc, snd acc @ [start @ [i]])
             else addFields start (Suc i) rest (fst acc @ [start @ [i]], snd acc)))"
  by pat_completeness auto

termination
proof (relation "measure (\<lambda>(start, i, fs, acc). size_list (size_prod (\<lambda>_. 0) size) fs)", goal_cases)
  case (3 start i ffrv rest acc)
  then show ?case
    using size_list_fieldsOf [of "eindirect (snd ffrv)"] size_eindirect [of "snd ffrv"]
    by (cases ffrv) simp
qed simp_all


text \<open>
  The recursive descent: \<^verbatim>\<open>encode\<close>, \<^verbatim>\<open>eArrayOfTables\<close> with its loop,
  \<^verbatim>\<open>eTable\<close>, \<^verbatim>\<open>eMapOrStruct\<close>, \<^verbatim>\<open>eMap\<close> with its function \<^verbatim>\<open>writeMapKeys\<close>, and
  \<^verbatim>\<open>eStruct\<close> with its function \<^verbatim>\<open>writeFields\<close>.
\<close>

function encode :: "(string \<Rightarrow> string) \<Rightarrow> Key \<Rightarrow> gval \<Rightarrow> Encoder \<Rightarrow> abort + Encoder"
  and eArrayOfTables :: "(string \<Rightarrow> string) \<Rightarrow> Key \<Rightarrow> gval \<Rightarrow> Encoder \<Rightarrow> abort + Encoder"
  and eArrayOfTablesLoop :: "(string \<Rightarrow> string) \<Rightarrow> Key \<Rightarrow> gval list \<Rightarrow> Encoder \<Rightarrow> abort + Encoder"
  and eTable :: "(string \<Rightarrow> string) \<Rightarrow> Key \<Rightarrow> gval \<Rightarrow> Encoder \<Rightarrow> abort + Encoder"
  and eMapOrStruct :: "(string \<Rightarrow> string) \<Rightarrow> Key \<Rightarrow> gval \<Rightarrow> Encoder \<Rightarrow> abort + Encoder"
  and eMap :: "(string \<Rightarrow> string) \<Rightarrow> Key \<Rightarrow> gval \<Rightarrow> Encoder \<Rightarrow> abort + Encoder"
  and writeMapKeys ::
    "(string \<Rightarrow> string) \<Rightarrow> Key \<Rightarrow> gval \<Rightarrow> string list \<Rightarrow> Encoder \<Rightarrow> abort + Encoder"
  and eStruct :: "(string \<Rightarrow> string) \<Rightarrow> Key \<Rightarrow> gval \<Rightarrow> Encoder \<Rightarrow> abort + Encoder"
  and writeFields ::
    "(string \<Rightarrow> string) \<Rightarrow> Key \<Rightarrow> gval \<Rightarrow> nat list list \<Rightarrow> Encoder \<Rightarrow> abort + Encoder"
where
  "encode verbs key rv enc =
     (if Kind rv = KInvalid
      then Inl (Panic ''reflect: call of reflect.Value.Interface on zero Value'')
      else case typeSwitch rv of
        IsTime _ \<Rightarrow> keyEqElement verbs key rv enc
      | IsTextMarshaler _ \<Rightarrow> keyEqElement verbs key rv enc
      | IsOther \<Rightarrow>
          (case Kind rv of
             KInt \<Rightarrow> keyEqElement verbs key rv enc
           | KUint \<Rightarrow> keyEqElement verbs key rv enc
           | KFloat \<Rightarrow> keyEqElement verbs key rv enc
           | KString \<Rightarrow> keyEqElement verbs key rv enc
           | KBool \<Rightarrow> keyEqElement verbs key rv enc
           | KArray \<Rightarrow>
               bindE (tomlTypeOfGo rv) (\<lambda>t.
                 if typeEqual (Some tomlArrayHash) t then eArrayOfTables verbs key rv enc
                 else keyEqElement verbs key rv enc)
           | KSlice \<Rightarrow>
               bindE (tomlTypeOfGo rv) (\<lambda>t.
                 if typeEqual (Some tomlArrayHash) t then eArrayOfTables verbs key rv enc
                 else keyEqElement verbs key rv enc)
           | KInterface \<Rightarrow> if isNil rv then Inr enc else encode verbs key (Elem rv) enc
           | KMap \<Rightarrow> if isNil rv then Inr enc else eTable verbs key rv enc
           | KPtr \<Rightarrow> if isNil rv then Inr enc else encode verbs key (Elem rv) enc
           | KStruct \<Rightarrow> eTable verbs key rv enc
           | KInvalid \<Rightarrow> Inl (Panic (''toml: Unsupported type for key '' @ Key_String key))
           | KOther k \<Rightarrow> Inl (Panic (''toml: Unsupported type for key '' @ Key_String key))))"
| "eArrayOfTables verbs key rv enc =
     (if length key = 0 then Inl (EncPanic errNoKey)
      else bindE (panicIfInvalidKey key True) (\<lambda>_.
             eArrayOfTablesLoop verbs key (elems rv) enc))"
| "eArrayOfTablesLoop verbs key [] enc = Inr enc"
| "eArrayOfTablesLoop verbs key (trv # rest) enc =
     (if isNil trv then eArrayOfTablesLoop verbs key rest enc
      else bindE (indentStr enc key) (\<lambda>ind.
             bindE (eMapOrStruct verbs key trv
                      (newline (wf (newline enc) (ind @ ''[['' @ Key_String key @ '']]'')))) (\<lambda>enc'.
               eArrayOfTablesLoop verbs key rest enc')))"
| "eTable verbs key rv enc =
     bindE (if length key > 0
            then bindE (panicIfInvalidKey key True) (\<lambda>_.
                   bindE (indentStr enc key) (\<lambda>ind.
                     Inr (newline (wf (if length key = 1 then newline enc else enc)
                                      (ind @ ''['' @ Key_String key @ '']'')))))
            else Inr (if length key = 1 then newline enc else enc)) (\<lambda>enc'.
       eMapOrStruct verbs key rv enc')"
| "eMapOrStruct verbs key rv enc =
     (if Kind (eindirect rv) = KMap then eMap verbs key (eindirect rv) enc
      else if Kind (eindirect rv) = KStruct then eStruct verbs key (eindirect rv) enc
      else Inl (Panic ''eTable: unhandled reflect.Value Kind''))"
| "eMap verbs key rv enc =
     (if Kind rv \<noteq> KMap then Inl (Panic ''reflect: Key of a type that is no map'')
      else if keyType rv = OtherKey then Inl (EncPanic errNonString)
      else bindE (mapKeysSplit (mapEntries rv) (MapKeys (mapEntries rv)) ([], [])) (\<lambda>ks.
             bindE (writeMapKeys verbs key rv (sort (fst ks)) enc) (\<lambda>enc'.
               writeMapKeys verbs key rv (sort (snd ks)) enc')))"
| "writeMapKeys verbs key rv [] enc = Inr enc"
| "writeMapKeys verbs key rv (mapKey # rest) enc =
     bindE (MapIndexOfString rv mapKey) (\<lambda>mrv.
       if isNil mrv then writeMapKeys verbs key rv rest enc
       else bindE (encode verbs (Key_add key mapKey) mrv enc) (\<lambda>enc'.
              writeMapKeys verbs key rv rest enc'))"
| "eStruct verbs key rv enc =
     bindE (addFields [] 0 (fieldsOf rv) ([], [])) (\<lambda>flds.
       bindE (writeFields verbs key rv (fst flds) enc) (\<lambda>enc'.
         writeFields verbs key rv (snd flds) enc'))"
| "writeFields verbs key rv [] enc = Inr enc"
| "writeFields verbs key rv (fieldIndex # rest) enc =
     bindE (FieldByIndex rv fieldIndex) (\<lambda>sfv.
       if isNil (snd sfv) then writeFields verbs key rv rest enc
       else if Tag_toml (fst sfv) = ''-'' then writeFields verbs key rv rest enc
       else bindE (encode verbs
                     (Key_add key (if Tag_toml (fst sfv) = [] then Name (fst sfv) else Tag_toml (fst sfv)))
                     (snd sfv)
                     (if validmodifiers (Tag_modifier (fst sfv)) = Some (Kind (snd sfv))
                      then enc\<lparr>modifier := Tag_modifier (fst sfv)\<rparr>
                      else enc\<lparr>modifier := MOD_NONE\<rparr>)) (\<lambda>enc'.
              writeFields verbs key rv rest enc'))"
  by pat_completeness auto

termination
proof (relation "inv_image (less_than <*lex*> less_than <*lex*> less_than)
    (\<lambda>x. case x of
       Inl y \<Rightarrow> (case y of
         Inl z \<Rightarrow> (case z of
           Inl (_, _, rv, _) \<Rightarrow> (size rv, 5::nat, 0::nat)
         | Inr (_, _, rv, _) \<Rightarrow> (size rv, 4, 0))
       | Inr z \<Rightarrow> (case z of
           Inl (_, _, trvs, _) \<Rightarrow> (size_list size trvs, 3, 0)
         | Inr (_, _, rv, _) \<Rightarrow> (size rv, 3, 0)))
     | Inr y \<Rightarrow> (case y of
         Inl z \<Rightarrow> (case z of
           Inl (_, _, rv, _) \<Rightarrow> (size rv, 2, 0)
         | Inr (_, _, rv, _) \<Rightarrow> (size rv, 1, 0))
       | Inr z \<Rightarrow> (case z of
           Inl (_, _, rv, ks, _) \<Rightarrow> (size rv, 0, length ks)
         | Inr u \<Rightarrow> (case u of
             Inl (_, _, rv, _) \<Rightarrow> (size rv, 1, 0)
           | Inr (_, _, rv, flds, _) \<Rightarrow> (size rv, 0, length flds)))))", goal_cases)
  case 1
  then show ?case by (intro wf_inv_image wf_lex_prod wf_less_than)
next
  case (2 verbs key rv enc t)
  then show ?case by simp
next
  case (3 verbs key rv enc t)
  then show ?case by simp
next
  case (4 verbs key rv enc)
  then show ?case using size_Elem [of rv] by simp
next
  case (5 verbs key rv enc)
  then show ?case by simp
next
  case (6 verbs key rv enc)
  then show ?case using size_Elem [of rv] by simp
next
  case (7 verbs key rv enc)
  then show ?case by simp
next
  case (8 verbs key rv enc u)
  then show ?case using size_list_elems [of rv] by auto
next
  case (9 verbs key trv rest enc)
  then show ?case by simp
next
  case (10 verbs key trv rest enc ind)
  then show ?case by simp
next
  case (11 verbs key trv rest enc ind enc')
  then show ?case by simp
next
  case (12 verbs key rv enc enc')
  then show ?case by simp
next
  case (13 verbs key rv enc)
  then show ?case using size_eindirect [of rv] by auto
next
  case (14 verbs key rv enc)
  then show ?case using size_eindirect [of rv] by auto
next
  case (15 verbs key rv enc ks)
  then show ?case by simp
next
  case (16 verbs key rv enc ks enc')
  then show ?case by simp
next
  case (17 verbs key rv mapKey rest enc mrv)
  then show ?case by simp
next
  case (18 verbs key rv mapKey rest enc mrv)
  then have "keyType rv = StringKey" and m: "mrv = MapIndex (mapEntries rv) mapKey"
    by (auto simp: MapIndexOfString_def split: if_splits)
  then have "Kind rv = KMap" by (simp add: keyType_KMap)
  then show ?case
    using size_mapEntries [of rv] size_MapIndex [of "mapEntries rv" mapKey] m by simp
next
  case (19 verbs key rv mapKey rest enc mrv enc')
  then show ?case by simp
next
  case (20 verbs key rv enc flds)
  then show ?case by simp
next
  case (21 verbs key rv enc flds enc')
  then show ?case by simp
next
  case (22 verbs key rv fieldIndex rest enc sfv)
  then show ?case by simp
next
  case (23 verbs key rv fieldIndex rest enc sfv)
  then show ?case by simp
next
  case (24 verbs key rv fieldIndex rest enc sfv)
  then show ?case using size_FieldByIndex [of rv fieldIndex sfv] by simp
next
  case (25 verbs key rv fieldIndex rest enc sfv enc')
  then show ?case by simp
qed


declare encode.simps [simp del] eArrayOfTables.simps [simp del] eTable.simps [simp del]
  eMapOrStruct.simps [simp del] eMap.simps [simp del] eStruct.simps [simp del]

text \<open>\<^verbatim>\<open>Encode\<close> with \<^verbatim>\<open>safeEncode\<close>: \<open>Inl (EncPanic e)\<close> is the error \<open>e\<close>
  returned, \<open>Inl (Panic m)\<close> a panic that leaves \<^verbatim>\<open>Encode\<close>, and \<open>Inr enc'\<close> the
  encoder after a run that returned nil, \<open>w enc'\<close> being the document.\<close>

definition Encode :: "(string \<Rightarrow> string) \<Rightarrow> gval \<Rightarrow> Encoder \<Rightarrow> abort + Encoder" where
  "Encode verbs v enc = encode verbs [] (eindirect v) enc"


section \<open>Running the encoder\<close>

text \<open>\<open>EncodeToString\<close> encodes with a fresh encoder, whose indent is two spaces,
  and gives the document or the way the run ended.\<close>

definition EncodeToString :: "(string \<Rightarrow> string) \<Rightarrow> gval \<Rightarrow> abort + string" where
  "EncodeToString verbs v =
     (case Encode verbs v NewEncoder of Inl a \<Rightarrow> Inl a | Inr enc \<Rightarrow> Inr (w enc))"

text \<open>Where no string of a value holds \<^verbatim>\<open>%\<close> the parameter \<open>verbs\<close> is never
  applied, and any function serves; \<open>noVerbs\<close> is the one used for such values.\<close>

definition noVerbs :: "string \<Rightarrow> string" where
  "noVerbs format = format"

text \<open>The values of the scenarios. \<open>arr_of_tables\<close> is
  \<^verbatim>\<open>map[string]interface{}{"arr": []map[string]interface{}{{"x": 1}, {"x": 2}}}\<close>;
  \<open>ints_then_tables\<close> is
  \<^verbatim>\<open>[]interface{}{[]int{1, 2}, []map[string]int{{"x": 1}}}\<close>, and \<open>in_map_a\<close>
  puts a value under the key \<^verbatim>\<open>a\<close> of a \<^verbatim>\<open>map[string]interface{}\<close>. The two
  fields are a string field \<^verbatim>\<open>S\<close> with the tag \<^verbatim>\<open>modifier:"multiline_string"\<close>
  and one with the tag \<^verbatim>\<open>modifier:"multiline_rawstring"\<close>.\<close>

definition arr_of_tables :: gval where
  "arr_of_tables = GMap StringKey (Some [(''arr'', GIface (Some (GSlice (Some
      [GMap StringKey (Some [(''x'', GIface (Some (GInt 1)))]),
       GMap StringKey (Some [(''x'', GIface (Some (GInt 2)))])]))))])"

definition ints_then_tables :: gval where
  "ints_then_tables = GSlice (Some
      [GIface (Some (GSlice (Some [GInt 1, GInt 2]))),
       GIface (Some (GSlice (Some [GMap StringKey (Some [(''x'', GInt 1)])])))])"

definition in_map_a :: "gval \<Rightarrow> gval" where
  "in_map_a v = GMap StringKey (Some [(''a'', GIface (Some v))])"

definition multiline_field :: StructField where
  "multiline_field = \<lparr>Name = ''S'', PkgPath = [], Anonymous = False, Tag_toml = [],
     Tag_modifier = MOD_MULTILINE_STRING\<rparr>"

definition rawstring_field :: StructField where
  "rawstring_field = \<lparr>Name = ''S'', PkgPath = [], Anonymous = False, Tag_toml = [],
     Tag_modifier = MOD_MULTILINE_RAWSTRING\<rparr>"

section \<open>Basic facts\<close>

lemma bindE_return [simp]: "bindE m Inr = m"
  by (cases m) simp_all

lemma writeFields_Nil_fun [simp]: "writeFields verbs key rv [] = Inr"
  by (rule ext) simp

lemma writeMapKeys_Nil_fun [simp]: "writeMapKeys verbs key rv [] = Inr"
  by (rule ext) simp

lemma modifier_wf: "modifier (wf enc a) = modifier enc"
  by (simp add: wf_def)

lemma replacer_byte_no_LF: "LF \<notin> set (quotedReplacer_byte c)"
  by (simp add: quotedReplacer_byte_def)

lemma replacer_no_LF: "LF \<notin> set (quotedReplacer_Replace s)"
  by (induction s) (simp_all add: quotedReplacer_Replace_def replacer_byte_no_LF)

lemma replacer_byte_percent: "PERCENT \<in> set (quotedReplacer_byte c) \<longleftrightarrow> c = PERCENT"
  by (auto simp: quotedReplacer_byte_def)

lemma replacer_percent: "PERCENT \<in> set (quotedReplacer_Replace s) \<longleftrightarrow> PERCENT \<in> set s"
  by (induction s) (auto simp: quotedReplacer_Replace_def replacer_byte_percent)

lemma replacer_LF:
  "quotedReplacer_Replace (a @ LF # b) =
   quotedReplacer_Replace a @ [BACKSLASH, CHR ''n''] @ quotedReplacer_Replace b"
  by (simp add: quotedReplacer_Replace_def quotedReplacer_byte_def)

lemma keyEqElement_multiline:
  assumes "key \<noteq> []" and "last key \<noteq> []" and "modifier enc = MOD_MULTILINE_STRING"
    and "PERCENT \<notin> set s"
  shows "keyEqElement verbs key (GString s) enc =
      Inr ((wf enc (concat (replicate (length key - 1) (Indent enc)) @ last key @ '' = '' @
              [DQUOTE, DQUOTE, DQUOTE] @ quotedReplacer_Replace s @ [DQUOTE, DQUOTE, DQUOTE] @ [LF]))
           \<lparr>modifier := MOD_NONE\<rparr>)"
  using assms
  by (simp add: keyEqElement_def panicIfInvalidKey_def isValidKeyName_def indentStr_def
      writeMultiLineString_def Fprintf0_def replacer_percent newline_def wf_def)

lemma keyEqElement_rawstring:
  assumes "key \<noteq> []" and "last key \<noteq> []" and "modifier enc = MOD_MULTILINE_RAWSTRING"
    and "PERCENT \<notin> set s"
  shows "keyEqElement verbs key (GString s) enc =
      Inr ((wf enc (concat (replicate (length key - 1) (Indent enc)) @ last key @ '' = '' @
              [SQUOTE, SQUOTE, SQUOTE] @ s @ '' '' @ [SQUOTE, SQUOTE, SQUOTE] @ [LF]))
           \<lparr>modifier := MOD_NONE\<rparr>)"
  using assms
  by (simp add: keyEqElement_def panicIfInvalidKey_def isValidKeyName_def indentStr_def
      writeMultiLineString_def Fprintf0_def newline_def wf_def
      MOD_MULTILINE_RAWSTRING_def MOD_MULTILINE_STRING_def)

section \<open>Strings with a modifier\<close>

text \<open>
  Claim C1, as the encoder has it. A string entry written while the modifier
  \<^verbatim>\<open>multiline_string\<close> is active, the string holding no \<^verbatim>\<open>%\<close>, becomes the
  line of the key and a block between two markers of three double quotes,
  whose contents are the string passed through \<^verbatim>\<open>quotedReplacer\<close>, the
  replacer of single-line strings. A newline of the string is written as
  backslash and \<^verbatim>\<open>n\<close>, so no newline stands between the markers.
\<close>

theorem multiline_string_escapes_newlines:
  assumes "key \<noteq> []" and "last key \<noteq> []" and "modifier enc = MOD_MULTILINE_STRING"
    and "PERCENT \<notin> set s"
  shows "keyEqElement verbs key (GString s) enc =
      Inr ((wf enc (concat (replicate (length key - 1) (Indent enc)) @ last key @ '' = '' @
              [DQUOTE, DQUOTE, DQUOTE] @ quotedReplacer_Replace s @ [DQUOTE, DQUOTE, DQUOTE] @ [LF]))
           \<lparr>modifier := MOD_NONE\<rparr>)
    \<and> writeQuoted s enc = wf enc ([DQUOTE] @ quotedReplacer_Replace s @ [DQUOTE])
    \<and> LF \<notin> set (quotedReplacer_Replace s)
    \<and> quotedReplacer_Replace (a @ LF # b) =
        quotedReplacer_Replace a @ [BACKSLASH, CHR ''n''] @ quotedReplacer_Replace b"
  using keyEqElement_multiline [OF assms] replacer_no_LF [of s] replacer_LF [of a b]
  by (simp add: writeQuoted_def)

theorem multiline_string_escapes_newlines_witness:
  "keyEqElement noVerbs [''S''] (GString [CHR ''a'', LF, CHR ''b''])
     (NewEncoder\<lparr>modifier := MOD_MULTILINE_STRING\<rparr>) =
   Inr (wf NewEncoder (''S = '' @ [DQUOTE, DQUOTE, DQUOTE] @
          [CHR ''a'', BACKSLASH, CHR ''n'', CHR ''b''] @ [DQUOTE, DQUOTE, DQUOTE] @ [LF]))"
proof -
  have k: "[''S''] \<noteq> []" and l: "last [''S''] \<noteq> []"
    and m: "modifier (NewEncoder\<lparr>modifier := MOD_MULTILINE_STRING\<rparr>) = MOD_MULTILINE_STRING"
    and p: "PERCENT \<notin> set [CHR ''a'', LF, CHR ''b'']"
    by simp_all
  show ?thesis
    using multiline_string_escapes_newlines [OF k l m p, of noVerbs "[]" "[]"]
    by (simp add: wf_def NewEncoder_def quotedReplacer_Replace_def quotedReplacer_byte_def)
qed

text \<open>Claim C1 as it is written fails: the struct with the string
  \<^verbatim>\<open>"a\nb"\<close> in a field tagged \<^verbatim>\<open>multiline_string\<close> is not written with the
  newline between the markers, but with the escape.\<close>

theorem multiline_string_newline_counterexample:
  "EncodeToString noVerbs (GStruct [(multiline_field, GString [CHR ''a'', LF, CHR ''b''])]) \<noteq>
     Inr (''S = '' @ [DQUOTE, DQUOTE, DQUOTE] @ [CHR ''a'', LF, CHR ''b''] @
          [DQUOTE, DQUOTE, DQUOTE] @ [LF])
   \<and> EncodeToString noVerbs (GStruct [(multiline_field, GString [CHR ''a'', LF, CHR ''b''])]) =
     Inr (''S = '' @ [DQUOTE, DQUOTE, DQUOTE] @ [CHR ''a'', BACKSLASH, CHR ''n'', CHR ''b''] @
          [DQUOTE, DQUOTE, DQUOTE] @ [LF])"
  by code_simp

text \<open>
  Claim C2, as the encoder has it. A string entry written while the modifier
  \<^verbatim>\<open>multiline_rawstring\<close> is active, the string holding no \<^verbatim>\<open>%\<close>, becomes the
  line of the key and a block between two markers of three single quotes,
  whose contents are the string, not escaped, followed by one space.
\<close>

theorem multiline_rawstring_appends_space:
  assumes "key \<noteq> []" and "last key \<noteq> []" and "modifier enc = MOD_MULTILINE_RAWSTRING"
    and "PERCENT \<notin> set s"
  shows "keyEqElement verbs key (GString s) enc =
      Inr ((wf enc (concat (replicate (length key - 1) (Indent enc)) @ last key @ '' = '' @
              [SQUOTE, SQUOTE, SQUOTE] @ s @ '' '' @ [SQUOTE, SQUOTE, SQUOTE] @ [LF]))
           \<lparr>modifier := MOD_NONE\<rparr>)"
  using assms by (rule keyEqElement_rawstring)

theorem multiline_rawstring_appends_space_witness:
  "keyEqElement noVerbs [''S''] (GString ''a'')
     (NewEncoder\<lparr>modifier := MOD_MULTILINE_RAWSTRING\<rparr>) =
   Inr (wf NewEncoder (''S = '' @ [SQUOTE, SQUOTE, SQUOTE] @ ''a '' @ [SQUOTE, SQUOTE, SQUOTE] @ [LF]))"
proof -
  have k: "[''S''] \<noteq> []" and l: "last [''S''] \<noteq> []"
    and m: "modifier (NewEncoder\<lparr>modifier := MOD_MULTILINE_RAWSTRING\<rparr>) = MOD_MULTILINE_RAWSTRING"
    and p: "PERCENT \<notin> set ''a''"
    by simp_all
  show ?thesis
    using multiline_rawstring_appends_space [OF k l m p, of noVerbs]
    by (simp add: wf_def NewEncoder_def)
qed

text \<open>Claim C2 as it is written fails: for the struct with the string \<^verbatim>\<open>"a"\<close>
  in a field tagged \<^verbatim>\<open>multiline_rawstring\<close> the bytes between the markers are
  not \<^verbatim>\<open>a\<close> but \<^verbatim>\<open>a\<close> and a space.\<close>

theorem multiline_rawstring_verbatim_counterexample:
  "EncodeToString noVerbs (GStruct [(rawstring_field, GString ''a'')]) \<noteq>
     Inr (''S = '' @ [SQUOTE, SQUOTE, SQUOTE] @ ''a'' @ [SQUOTE, SQUOTE, SQUOTE] @ [LF])
   \<and> EncodeToString noVerbs (GStruct [(rawstring_field, GString ''a'')]) =
     Inr (''S = '' @ [SQUOTE, SQUOTE, SQUOTE] @ ''a '' @ [SQUOTE, SQUOTE, SQUOTE] @ [LF])"
  by code_simp

section \<open>The scenarios\<close>

text \<open>
  Claim C3, as the encoder has it. A fresh encoder with the indent of two
  spaces writes \<^verbatim>\<open>{"arr": [{"x": 1}, {"x": 2}]}\<close> as
  \<^verbatim>\<open>[[arr]]\n  x = 1\n\n[[arr]]\n  x = 2\n\<close>: nothing has been written when the
  first header is due, so \<^verbatim>\<open>newline\<close> writes no blank line before it.
\<close>

theorem array_of_tables_document:
  "EncodeToString verbs arr_of_tables =
     Inr (''[[arr]]'' @ [LF] @ ''  x = 1'' @ [LF, LF] @ ''[[arr]]'' @ [LF] @ ''  x = 2'' @ [LF])"
  by code_simp

text \<open>Claim C3 as it is written fails: the document does not start with a
  blank line.\<close>

theorem array_of_tables_leading_newline_counterexample:
  "EncodeToString noVerbs arr_of_tables \<noteq>
     Inr ([LF] @ ''[[arr]]'' @ [LF] @ ''  x = 1'' @ [LF, LF] @ ''[[arr]]'' @ [LF] @ ''  x = 2'' @ [LF])"
  by code_simp

text \<open>
  Claim C4, as the encoder has it. The array \<^verbatim>\<open>[[1,2],[{"x":1}]]\<close> is refused
  with the error of mixed element types: element 0 has the type array,
  element 1 the type array of tables, and the loop that compares every
  element with element 0 comes before the check of nested tables. This is
  the outcome of \<^verbatim>\<open>tomlArrayType\<close> on the array and of encoding a map that holds it.
\<close>

theorem ints_then_tables_mixed:
  "tomlArrayType ints_then_tables = Inl (EncPanic errArrayMixedElementTypes)
   \<and> EncodeToString verbs (in_map_a ints_then_tables) = Inl (EncPanic errArrayMixedElementTypes)"
  by code_simp

text \<open>Claim C4 as it is written fails: the error is not the one of a table
  inside an array element.\<close>

theorem ints_then_tables_no_table_counterexample:
  "EncodeToString noVerbs (in_map_a ints_then_tables) \<noteq> Inl (EncPanic errArrayNoTable)"
  by code_simp

section \<open>Key names\<close>

text \<open>
  Claim C10. A key whose last segment is not empty passes the validation for
  leaf keys (\<open>hash = False\<close>), whatever characters the segment holds, and
  \<^verbatim>\<open>keyEqElement\<close> writes the indent, that segment as it is and \<^verbatim>\<open> = \<close> before
  the value. The validation for table paths (\<open>hash = True\<close>) succeeds exactly
  when every segment is a valid table name, one that is not empty and
  holds none of \<^verbatim>\<open>[ ] .\<close>
\<close>

theorem leaf_key_rejects_only_empty:
  assumes "key \<noteq> []" and "last key \<noteq> []"
  shows "panicIfInvalidKey key False = Inr ()
     \<and> keyEqElement verbs key val enc =
         bindE (if modifier enc = MOD_MULTILINE_STRING
                then Inr (writeMultiLineString verbs (Value_String val) False
                       (wf enc (concat (replicate (length key - 1) (Indent enc)) @ last key @ '' = '')))
                else if modifier enc = MOD_MULTILINE_RAWSTRING
                then Inr (writeMultiLineString verbs (Value_String val) True
                       (wf enc (concat (replicate (length key - 1) (Indent enc)) @ last key @ '' = '')))
                else eElement verbs val
                       (wf enc (concat (replicate (length key - 1) (Indent enc)) @ last key @ '' = '')))
           (\<lambda>enc2. Inr ((newline enc2)\<lparr>modifier := MOD_NONE\<rparr>))
     \<and> (panicIfInvalidKey key True = Inr () \<longleftrightarrow> list_all isValidTableName key)
     \<and> (isValidTableName seg \<longleftrightarrow>
          seg \<noteq> [] \<and> CHR ''['' \<notin> set seg \<and> CHR '']'' \<notin> set seg \<and> CHR ''.'' \<notin> set seg)
     \<and> (isValidKeyName seg \<longleftrightarrow> seg \<noteq> [])"
  using assms
  by (simp add: panicIfInvalidKey_def isValidKeyName_def isValidTableName_def keyEqElement_def
      indentStr_def modifier_wf)

theorem leaf_key_rejects_only_empty_witness:
  "panicIfInvalidKey [''t'', ''a b.[c]''] False = Inr ()
   \<and> keyEqElement noVerbs [''t'', ''a b.[c]''] (GInt 1) NewEncoder =
       Inr (wf NewEncoder (''  a b.[c] = 1'' @ [LF]))
   \<and> panicIfInvalidKey [''t'', ''a b.[c]''] True \<noteq> Inr ()"
proof -
  have k: "[''t'', ''a b.[c]''] \<noteq> []" and l: "last [''t'', ''a b.[c]''] \<noteq> []"
    by simp_all
  have i: "FormatInt 1 = ''1''"
    by code_simp
  show ?thesis
    using leaf_key_rejects_only_empty [OF k l, of noVerbs "GInt 1" NewEncoder "''a b.[c]''"]
    by (simp add: NewEncoder_def MOD_NONE_def MOD_MULTILINE_STRING_def MOD_MULTILINE_RAWSTRING_def
        eElement.simps Fprintf0_def i wf_def newline_def isValidTableName_def)
qed

section \<open>Numbers\<close>

lemma digitChar_in: "digitChar d \<in> set ''0123456789''"
  unfolding digitChar_def by (rule nth_mem) simp

lemma digitChar_not_point: "digitChar d \<noteq> CHR ''.''"
  using digitChar_in [of d] by auto

lemma digitChar_not_percent: "digitChar d \<noteq> PERCENT"
  using digitChar_in [of d] by auto

lemma FormatUint_digits: "set (FormatUint n) \<subseteq> set ''0123456789''"
proof (induction n rule: FormatUint.induct)
  case (1 n)
  show ?case
  proof (cases "n < 10")
    case True
    then show ?thesis using digitChar_in [of n] by (subst FormatUint.simps) simp
  next
    case False
    then show ?thesis using 1 digitChar_in [of "n mod 10"] by (subst FormatUint.simps) simp
  qed
qed

lemma FormatUint_no_point: "CHR ''.'' \<notin> set (FormatUint u)"
  using FormatUint_digits [of u] by auto

lemma FormatUint_no_percent: "PERCENT \<notin> set (FormatUint u)"
  using FormatUint_digits [of u] by auto

lemma FormatInt_no_point: "CHR ''.'' \<notin> set (FormatInt i)"
  using FormatUint_no_point [of "nat i"] FormatUint_no_point [of "nat (- i)"]
  by (simp add: FormatInt_def)

lemma FormatInt_no_percent: "PERCENT \<notin> set (FormatInt i)"
  using FormatUint_no_percent [of "nat i"] FormatUint_no_percent [of "nat (- i)"]
  by (simp add: FormatInt_def)

lemma count_digits_point: "count_list (map digitChar ds) (CHR ''.'') = 0"
  by (induction ds) (simp_all add: digitChar_not_point)

lemma count_list_append: "count_list (xs @ ys) c = count_list xs c + count_list ys c"
  by (induction xs) simp_all

lemma count_FormatFloat: "count_list (FormatFloat f) (CHR ''.'') \<le> 1"
  by (cases f) (simp_all add: count_list_append count_digits_point)

lemma count_floatAddDecimal: "count_list fstr (CHR ''.'') \<le> 1 \<Longrightarrow> count_list (floatAddDecimal fstr) (CHR ''.'') = 1"
proof -
  assume a: "count_list fstr (CHR ''.'') \<le> 1"
  show ?thesis
  proof (cases "CHR ''.'' \<in> set fstr")
    case True
    then have "count_list fstr (CHR ''.'') > 0"
      using count_list_0_iff [of fstr "CHR ''.''"] by auto
    with a True show ?thesis by (simp add: floatAddDecimal_def)
  next
    case False
    then have "count_list fstr (CHR ''.'') = 0" by (simp add: count_list_0_iff)
    with False show ?thesis by (simp add: floatAddDecimal_def count_list_append)
  qed
qed

lemma digits_no_percent: "PERCENT \<notin> set (map digitChar ds)"
  by (induction ds) (simp_all add: digitChar_not_percent [symmetric])

lemma FormatFloat_no_percent: "PERCENT \<notin> set (FormatFloat f)"
  using digits_no_percent by (cases f) (simp_all del: set_map)

lemma floatAddDecimal_no_percent: "PERCENT \<notin> set (floatAddDecimal (FormatFloat f))"
  using FormatFloat_no_percent [of f] by (simp add: floatAddDecimal_def)

text \<open>
  Claim C8. A float is written as \<^verbatim>\<open>floatAddDecimal\<close> of its shortest decimal
  text, which is that text itself when it holds a point and the text with
  \<^verbatim>\<open>.0\<close> appended when it holds none; the literal holds exactly one point. An
  integer, signed or unsigned, is written in base 10 and its literal holds
  no point.
\<close>

theorem float_literal_one_point:
  "eElement verbs (GFloat f) enc = Inr (wf enc (floatAddDecimal (FormatFloat f)))
   \<and> floatAddDecimal (FormatFloat f) =
       (if CHR ''.'' \<in> set (FormatFloat f) then FormatFloat f else FormatFloat f @ ''.0'')
   \<and> count_list (floatAddDecimal (FormatFloat f)) (CHR ''.'') = 1
   \<and> eElement verbs (GInt i) enc = Inr (wf enc (FormatInt i))
   \<and> CHR ''.'' \<notin> set (FormatInt i)
   \<and> eElement verbs (GUint u) enc = Inr (wf enc (FormatUint u))
   \<and> CHR ''.'' \<notin> set (FormatUint u)"
proof -
  have "eElement verbs (GFloat f) enc = Inr (wf enc (floatAddDecimal (FormatFloat f)))"
    using floatAddDecimal_no_percent [of f] by (simp add: eElement.simps Fprintf0_def)
  moreover have "floatAddDecimal (FormatFloat f) =
       (if CHR ''.'' \<in> set (FormatFloat f) then FormatFloat f else FormatFloat f @ ''.0'')"
    by (simp add: floatAddDecimal_def)
  moreover have "count_list (floatAddDecimal (FormatFloat f)) (CHR ''.'') = 1"
    using count_FormatFloat [of f] by (rule count_floatAddDecimal)
  moreover have "eElement verbs (GInt i) enc = Inr (wf enc (FormatInt i))"
    using FormatInt_no_percent [of i] by (simp add: eElement.simps Fprintf0_def)
  moreover have "eElement verbs (GUint u) enc = Inr (wf enc (FormatUint u))"
    using FormatUint_no_percent [of u] by (simp add: eElement.simps Fprintf0_def)
  ultimately show ?thesis
    using FormatInt_no_point [of i] FormatUint_no_point [of u] by simp
qed




section \<open>Arrays\<close>

lemma tomlArrayLoop_first_offender:
  assumes "list_all (\<lambda>p. tomlTypeOfGo p = Inr (Some t0)) pre"
    and "tomlTypeOfGo y = Inr ty" and "ty \<noteq> Some t0"
  shows "tomlArrayLoop (Some t0) (pre @ y # post) =
     Inl (EncPanic (if ty = None then errArrayNilElement else errArrayMixedElementTypes))"
  using assms
proof (induction pre)
  case Nil
  then show ?case by (cases ty) (simp_all add: typeEqual_def)
next
  case (Cons p pre)
  then show ?case by (simp add: typeEqual_def)
qed

text \<open>
  Claim C6. Let an array or slice that is not nil have the elements
  \<open>pre @ y # post\<close>, where every element of \<open>pre\<close> has the kind \<open>t0\<close> and \<open>y\<close> is
  the first offender: its kind is absent, or it is not element 0 and its
  kind differs from \<open>t0\<close>, the kind of element 0. Then \<^verbatim>\<open>tomlArrayType\<close> fails
  with the error of \<open>y\<close>, whatever \<open>post\<close> holds: the nil-element error when the
  kind of \<open>y\<close> is absent, the mixed-types error otherwise.
\<close>

theorem array_scan_first_offender:
  assumes "Kind rv = KArray \<or> Kind rv = KSlice" and "\<not> isNil rv"
    and "elems rv = pre @ y # post"
    and "list_all (\<lambda>p. tomlTypeOfGo p = Inr (Some t0)) pre"
    and "tomlTypeOfGo y = Inr ty"
    and "ty = None \<or> (pre \<noteq> [] \<and> ty \<noteq> Some t0)"
  shows "tomlArrayType rv =
     Inl (EncPanic (if ty = None then errArrayNilElement else errArrayMixedElementTypes))"
proof (cases pre)
  case Nil
  with assms have "elems rv = y # post" and "ty = None" by simp_all
  with assms(1,2,5) show ?thesis
    by (subst tomlArrayType.simps) (auto simp: IsValid_def)
next
  case (Cons x pre')
  with assms(4) have x: "tomlTypeOfGo x = Inr (Some t0)"
    and pre': "list_all (\<lambda>p. tomlTypeOfGo p = Inr (Some t0)) pre'"
    by simp_all
  from assms(6) Cons have ne: "ty \<noteq> Some t0" by auto
  have loop: "tomlArrayLoop (Some t0) (pre' @ y # post) =
     Inl (EncPanic (if ty = None then errArrayNilElement else errArrayMixedElementTypes))"
    using pre' assms(5) ne by (rule tomlArrayLoop_first_offender)
  from assms(3) Cons have "elems rv = x # (pre' @ y # post)" by simp
  with assms(1,2) x loop show ?thesis
    by (subst tomlArrayType.simps) (auto simp: IsValid_def)
qed

theorem array_scan_first_offender_witness:
  "tomlArrayType (GSlice (Some [GIface (Some (GInt 1)), GIface (Some (GString ''a'')), GIface None]))
     = Inl (EncPanic errArrayMixedElementTypes)
   \<and> tomlArrayType (GSlice (Some [GIface (Some (GInt 1)), GIface None, GIface (Some (GString ''a''))]))
     = Inl (EncPanic errArrayNilElement)"
proof -
  have a: "tomlTypeOfGo (GIface (Some (GInt 1))) = Inr (Some tomlInteger)"
    and b: "tomlTypeOfGo (GIface (Some (GString ''a''))) = Inr (Some tomlString)"
    and c: "tomlTypeOfGo (GIface None) = Inr None"
    by (simp_all add: tomlTypeOfGo.simps IsValid_def)
  show ?thesis
    using array_scan_first_offender [of
        "GSlice (Some [GIface (Some (GInt 1)), GIface (Some (GString ''a'')), GIface None])"
        "[GIface (Some (GInt 1))]" "GIface (Some (GString ''a''))" "[GIface None]"
        tomlInteger "Some tomlString"]
      array_scan_first_offender [of
        "GSlice (Some [GIface (Some (GInt 1)), GIface None, GIface (Some (GString ''a''))])"
        "[GIface (Some (GInt 1))]" "GIface None" "[GIface (Some (GString ''a''))]"
        tomlInteger None]
      a b c
    by simp
qed


section \<open>Maps\<close>

text \<open>\<open>isSub es k\<close>: \<^verbatim>\<open>tomlTypeOfGo\<close> gives the entry of the key \<open>k\<close> the type table or
  array of tables, so that \<^verbatim>\<open>eMap\<close> puts \<open>k\<close> into \<^verbatim>\<open>mapKeysSub\<close>.\<close>

definition isSub :: "(string \<times> gval) list \<Rightarrow> string \<Rightarrow> bool" where
  "isSub es k = (case tomlTypeOfGo (MapIndex es k) of Inl _ \<Rightarrow> False | Inr t \<Rightarrow> typeIsHash t)"

text \<open>The maps of claim C5, of type \<^verbatim>\<open>map[string]interface{}\<close>. \<open>unsorted_map\<close>
  and \<open>unsorted_map'\<close> are one map in two storage orders: the keys \<^verbatim>\<open>b\<close> and \<^verbatim>\<open>a\<close>
  hold integers, the keys \<^verbatim>\<open>d\<close> and \<^verbatim>\<open>c\<close> hold tables. \<open>z_then_a\<close> holds an
  integer under \<^verbatim>\<open>z\<close> and a table under \<^verbatim>\<open>a\<close>. \<open>marshaler_after_table\<close> holds a
  table under \<^verbatim>\<open>a\<close> and, under \<^verbatim>\<open>t\<close>, a pointer to a struct whose type
  implements \<^verbatim>\<open>TextMarshaler\<close>.\<close>

definition unsorted_map :: "(string \<times> gval) list" where
  "unsorted_map =
     [(''d'', GIface (Some (GMap StringKey (Some [(''x'', GIface (Some (GInt 4)))])))),
      (''b'', GIface (Some (GInt 2))),
      (''c'', GIface (Some (GMap StringKey (Some [(''x'', GIface (Some (GInt 3)))])))),
      (''a'', GIface (Some (GInt 1)))]"

definition unsorted_map' :: "(string \<times> gval) list" where
  "unsorted_map' =
     [(''a'', GIface (Some (GInt 1))),
      (''c'', GIface (Some (GMap StringKey (Some [(''x'', GIface (Some (GInt 3)))])))),
      (''d'', GIface (Some (GMap StringKey (Some [(''x'', GIface (Some (GInt 4)))])))),
      (''b'', GIface (Some (GInt 2)))]"

definition z_then_a :: gval where
  "z_then_a = GMap StringKey (Some
     [(''a'', GIface (Some (GMap StringKey (Some [(''x'', GIface (Some (GInt 2)))])))),
      (''z'', GIface (Some (GInt 1)))])"

definition marshaler_after_table :: gval where
  "marshaler_after_table = GMap StringKey (Some
     [(''a'', GIface (Some (GMap StringKey (Some [(''x'', GIface (Some (GInt 1)))])))),
      (''t'', GIface (Some (GText (GPtr (Some (GStruct []))) (Inr ''txt''))))])"

lemma mapKeysSplit_Inr:
  "mapKeysSplit es ks acc = Inr r \<Longrightarrow>
   r = (fst acc @ filter (\<lambda>k. \<not> isSub es k) ks, snd acc @ filter (isSub es) ks)"
proof (induction ks arbitrary: acc)
  case Nil
  then show ?case by simp
next
  case (Cons k ks)
  from Cons.prems obtain t where t: "tomlTypeOfGo (MapIndex es k) = Inr t"
    by (auto simp: bindE_eq_Inr)
  show ?case
  proof (cases "typeIsHash t")
    case True
    with Cons.prems t have "mapKeysSplit es ks (fst acc, snd acc @ [k]) = Inr r" by simp
    from Cons.IH [OF this] t True show ?thesis by (simp add: isSub_def)
  next
    case False
    with Cons.prems t have "mapKeysSplit es ks (fst acc @ [k], snd acc) = Inr r" by simp
    from Cons.IH [OF this] t False show ?thesis by (simp add: isSub_def)
  qed
qed

lemma mapKeysSplit_typed:
  "mapKeysSplit es ks acc = Inr r \<Longrightarrow>
   list_all (\<lambda>k. \<exists>t. tomlTypeOfGo (MapIndex es k) = Inr t) ks"
proof (induction ks arbitrary: acc)
  case Nil
  then show ?case by simp
next
  case (Cons k ks)
  from Cons.prems obtain t where t: "tomlTypeOfGo (MapIndex es k) = Inr t"
    by (auto simp: bindE_eq_Inr)
  with Cons.prems have
    "mapKeysSplit es ks (if typeIsHash t then (fst acc, snd acc @ [k]) else (fst acc @ [k], snd acc)) = Inr r"
    by (simp split: if_splits)
  from Cons.IH [OF this] t show ?case by simp
qed

lemma mapKeysSplit_total:
  "list_all (\<lambda>k. \<exists>t. tomlTypeOfGo (MapIndex es k) = Inr t) ks \<Longrightarrow>
   mapKeysSplit es ks acc =
     Inr (fst acc @ filter (\<lambda>k. \<not> isSub es k) ks, snd acc @ filter (isSub es) ks)"
proof (induction ks arbitrary: acc)
  case Nil
  then show ?case by simp
next
  case (Cons k ks)
  then obtain t where t: "tomlTypeOfGo (MapIndex es k) = Inr t"
    and rest: "list_all (\<lambda>k. \<exists>t. tomlTypeOfGo (MapIndex es k) = Inr t) ks"
    by auto
  show ?case
    using t Cons.IH [OF rest] by (simp add: isSub_def)
qed

lemma MapIndexOfString_StringKey [simp]:
  "MapIndexOfString (GMap StringKey (Some es)) k = Inr (MapIndex es k)"
  by (simp add: MapIndexOfString_def)

lemma writeMapKeys_append:
  "writeMapKeys verbs key rv (xs @ ys) enc =
   bindE (writeMapKeys verbs key rv xs enc) (writeMapKeys verbs key rv ys)"
proof (induction xs arbitrary: enc)
  case Nil
  show ?case by simp
next
  case (Cons x xs)
  show ?case
  proof (cases "MapIndexOfString rv x")
    case (Inl a)
    then show ?thesis by simp
  next
    case (Inr mrv)
    show ?thesis
    proof (cases "isNil mrv")
      case True
      with Cons Inr show ?thesis by simp
    next
      case False
      with Cons Inr show ?thesis
        by (cases "encode verbs (Key_add key x) mrv enc") simp_all
    qed
  qed
qed

lemma writeMapKeys_same_map:
  "map_of es' = map_of es \<Longrightarrow>
   writeMapKeys verbs key (GMap StringKey (Some es')) ks enc =
   writeMapKeys verbs key (GMap StringKey (Some es)) ks enc"
proof (induction ks arbitrary: enc)
  case Nil
  show ?case by simp
next
  case (Cons k ks)
  then have m: "MapIndex es' k = MapIndex es k" by (simp add: MapIndex_def)
  show ?case
  proof (cases "isNil (MapIndex es k)")
    case True
    with Cons m show ?thesis by simp
  next
    case False
    with Cons m show ?thesis
      by (cases "encode verbs (Key_add key k) (MapIndex es k) enc") simp_all
  qed
qed

lemma isSub_same_map: "map_of es' = map_of es \<Longrightarrow> isSub es' = isSub es"
  by (rule ext) (simp add: isSub_def MapIndex_def)

lemma sort_same_set:
  fixes xs ys :: "string list"
  assumes "distinct xs" and "distinct ys" and "set xs = set ys"
  shows "sort xs = sort ys"
proof (rule sorted_distinct_set_unique)
  show "sorted (sort xs)" and "sorted (sort ys)" by simp_all
  show "distinct (sort xs)" using assms(1) by simp
  show "distinct (sort ys)" using assms(2) by simp
  show "set (sort xs) = set (sort ys)" using assms(3) by simp
qed

lemma eMap_sorted_keys:
  assumes "mapKeysSplit es (MapKeys es) ([], []) = Inr (direct, sub)"
  shows "eMap verbs key (GMap StringKey (Some es)) enc =
     writeMapKeys verbs key (GMap StringKey (Some es)) (sort direct @ sort sub) enc"
  using assms by (subst eMap.simps) (simp add: writeMapKeys_append)




text \<open>The groups are those of \<^verbatim>\<open>tomlTypeOfGo\<close>, not those of what is written: a
  pointer to a struct is given the type table, and where its type
  implements \<^verbatim>\<open>TextMarshaler\<close> the entry is written by \<^verbatim>\<open>keyEqElement\<close>, after
  the table that sorts before it. A map whose key type is a named string
  type passes the test of the key type and panics in \<^verbatim>\<open>writeMapKeys\<close>.\<close>

lemma marshaler_after_table_document:
  "EncodeToString verbs marshaler_after_table =
     Inr (''[a]'' @ [LF] @ ''  x = 1'' @ [LF] @ ''t = '' @ [DQUOTE] @ ''txt'' @ [DQUOTE] @ [LF])"
  by code_simp

lemma named_string_key_panics:
  "EncodeToString verbs (GMap NamedStringKey (Some [(''a'', GInt 1)])) =
     Inl (Panic ''reflect.Value.MapIndex: value of type string is not assignable to the key type'')"
  by code_simp

section \<open>Embedded fields\<close>

text \<open>
  A plain field is exported, not anonymous, and has a value whose TOML type
  can be determined; \<open>fieldIsSub\<close> says whether that type is table or array
  of tables. \<open>fieldIdx i fs sub\<close> lists the indices \<open>j\<close> of the fields \<open>fs\<close>,
  numbered from \<open>i\<close>, that are sub fields (\<open>sub = True\<close>) or direct fields
  (\<open>sub = False\<close>), and \<open>fieldPaths start i fs sub\<close> their index paths
  \<open>start @ [j]\<close>.
\<close>

definition plainField :: "StructField \<times> gval \<Rightarrow> bool" where
  "plainField fv =
     (PkgPath (fst fv) = [] \<and> \<not> Anonymous (fst fv) \<and>
      (case tomlTypeOfGo (snd fv) of Inl _ \<Rightarrow> False | Inr _ \<Rightarrow> True))"

definition fieldIsSub :: "StructField \<times> gval \<Rightarrow> bool" where
  "fieldIsSub fv = (case tomlTypeOfGo (snd fv) of Inl _ \<Rightarrow> False | Inr t \<Rightarrow> typeIsHash t)"

fun fieldIdx :: "nat \<Rightarrow> (StructField \<times> gval) list \<Rightarrow> bool \<Rightarrow> nat list" where
  "fieldIdx i [] sub = []"
| "fieldIdx i (fv # rest) sub =
     (if fieldIsSub fv = sub then [i] else []) @ fieldIdx (Suc i) rest sub"

definition fieldPaths :: "nat list \<Rightarrow> nat \<Rightarrow> (StructField \<times> gval) list \<Rightarrow> bool \<Rightarrow> nat list list" where
  "fieldPaths start i fs sub = map (\<lambda>j. start @ [j]) (fieldIdx i fs sub)"

text \<open>The structs of claim C7: \<open>embeds_struct\<close> has the fields \<^verbatim>\<open>A int\<close>, an
  embedded struct with the fields \<^verbatim>\<open>X int\<close> and \<^verbatim>\<open>Y string\<close>, and \<^verbatim>\<open>B int\<close>;
  \<open>embeds_map\<close> embeds a named map type.\<close>

definition plain_named :: "string \<Rightarrow> StructField" where
  "plain_named n = \<lparr>Name = n, PkgPath = [], Anonymous = False, Tag_toml = [], Tag_modifier = []\<rparr>"

definition embedded_named :: "string \<Rightarrow> StructField" where
  "embedded_named n = \<lparr>Name = n, PkgPath = [], Anonymous = True, Tag_toml = [], Tag_modifier = []\<rparr>"

definition embeds_struct :: gval where
  "embeds_struct = GStruct
     [(plain_named ''A'', GInt 1),
      (embedded_named ''Inner'', GStruct [(plain_named ''X'', GInt 2), (plain_named ''Y'', GString ''s'')]),
      (plain_named ''B'', GInt 3)]"

definition embeds_map :: gval where
  "embeds_map = GStruct [(embedded_named ''M'', GMap StringKey (Some [(''x'', GInt 1)]))]"

lemma addFields_append:
  "addFields start i (xs @ ys) acc =
   bindE (addFields start i xs acc) (\<lambda>acc'. addFields start (i + length xs) ys acc')"
proof (induction xs arbitrary: i acc)
  case Nil
  show ?case by simp
next
  case (Cons x xs)
  show ?case
  proof (cases "PkgPath (fst x) \<noteq> []")
    case True
    then show ?thesis by (simp add: Cons.IH)
  next
    case exported: False
    show ?thesis
    proof (cases "Anonymous (fst x)")
      case True
      have "addFields start (Suc i) (xs @ ys) =
          (\<lambda>a. bindE (addFields start (Suc i) xs a) (addFields start (Suc (i + length xs)) ys))"
        by (rule ext) (simp add: Cons.IH)
      with exported True show ?thesis by (simp add: bindE_assoc)
    next
      case False
      with exported show ?thesis
        by (cases "tomlTypeOfGo (snd x)") (simp_all add: Cons.IH)
    qed
  qed
qed

lemma addFields_plain:
  "list_all plainField fs \<Longrightarrow>
   addFields start i fs acc =
     Inr (fst acc @ fieldPaths start i fs False, snd acc @ fieldPaths start i fs True)"
proof (induction fs arbitrary: i acc)
  case Nil
  show ?case by (simp add: fieldPaths_def)
next
  case (Cons fv fs)
  then have p: "plainField fv" and rest: "list_all plainField fs" by simp_all
  from p obtain t where t: "tomlTypeOfGo (snd fv) = Inr t"
    by (auto simp: plainField_def split: sum.splits)
  from p t show ?case
    using Cons.IH [OF rest] by (simp add: plainField_def fieldIsSub_def fieldPaths_def)
qed

lemma fieldIdx_bound: "j \<in> set (fieldIdx i fs sub) \<Longrightarrow> j < i + length fs"
  by (induction fs arbitrary: i) (fastforce split: if_splits)+

lemma fieldIdx_in_range: "list_all (\<lambda>j. j < length fs) (fieldIdx 0 fs sub)"
  using fieldIdx_bound [of _ 0 fs sub] by (auto simp: list_all_iff)

lemma addFields_anonymous:
  assumes "PkgPath f = []" and "Anonymous f"
  shows "addFields start i ((f, frv) # rest) acc =
     (if Kind (eindirect frv) = KInvalid
      then Inl (Panic ''reflect: call of reflect.Value.Type on zero Value'')
      else if Kind (eindirect frv) \<noteq> KStruct then Inl (EncPanic errAnonNonStruct)
      else bindE (addFields [i] 0 (fieldsOf (eindirect frv)) acc) (\<lambda>acc'.
             addFields start (Suc i) rest acc'))"
  using assms by simp

lemma eindirect_KStruct: "Kind v = KStruct \<Longrightarrow> eindirect v = v"
  by (induction v rule: eindirect.induct) auto

lemma eindirect_KPtr: "Kind v = KPtr \<Longrightarrow> \<not> isNil v \<Longrightarrow> eindirect v = eindirect (Elem v)"
  by (induction v rule: eindirect.induct) auto

lemma FieldByIndex_embedded:
  assumes "Kind frv = KStruct \<or> (Kind frv = KPtr \<and> Kind (Elem frv) = KStruct)"
    and "j < length (fieldsOf (eindirect frv))"
  shows "FieldByIndex (GStruct (pre @ (f, frv) # rest)) [length pre, j] =
     Inr (fieldsOf (eindirect frv) ! j)"
proof -
  have top: "Field (GStruct (pre @ (f, frv) # rest)) (length pre) = Inr (f, frv)"
    by (simp add: Field_def)
  from assms(1) show ?thesis
  proof
    assume k: "Kind frv = KStruct"
    with assms(2) have "Field frv j = Inr (fieldsOf (eindirect frv) ! j)"
      by (simp add: Field_def eindirect_KStruct)
    with k top show ?thesis by (simp add: FieldByIndex_def)
  next
    assume k: "Kind frv = KPtr \<and> Kind (Elem frv) = KStruct"
    then have nn: "\<not> isNil frv" by (induction frv rule: Elem.induct) auto
    with k have e: "eindirect frv = Elem frv"
      by (simp add: eindirect_KPtr eindirect_KStruct)
    with assms(2) k have "Field (Elem frv) j = Inr (fieldsOf (eindirect frv) ! j)"
      by (simp add: Field_def)
    with k nn top show ?thesis by (simp add: FieldByIndex_def)
  qed
qed

lemma embedded_KStruct:
  assumes "Kind frv = KStruct \<or> (Kind frv = KPtr \<and> Kind (Elem frv) = KStruct)"
  shows "Kind (eindirect frv) = KStruct"
proof -
  from assms show ?thesis
  proof
    assume "Kind frv = KStruct"
    then show ?thesis by (simp add: eindirect_KStruct)
  next
    assume k: "Kind frv = KPtr \<and> Kind (Elem frv) = KStruct"
    then have "\<not> isNil frv" by (induction frv rule: Elem.induct) auto
    with k show ?thesis by (simp add: eindirect_KPtr eindirect_KStruct)
  qed
qed

lemma writeFields_embedded:
  assumes "Kind frv = KStruct \<or> (Kind frv = KPtr \<and> Kind (Elem frv) = KStruct)"
    and "list_all (\<lambda>j. j < length (fieldsOf (eindirect frv))) js"
  shows "writeFields verbs key (GStruct (pre @ (f, frv) # rest)) (map (\<lambda>j. [length pre, j]) js) =
     writeFields verbs key (eindirect frv) (map (\<lambda>j. [j]) js)"
  using assms(2)
proof (induction js)
  case Nil
  show ?case by simp
next
  case (Cons j js)
  then have j: "j < length (fieldsOf (eindirect frv))"
    and IH: "writeFields verbs key (GStruct (pre @ (f, frv) # rest)) (map (\<lambda>j. [length pre, j]) js) =
       writeFields verbs key (eindirect frv) (map (\<lambda>j. [j]) js)"
    by simp_all
  have outer: "FieldByIndex (GStruct (pre @ (f, frv) # rest)) [length pre, j] =
      Inr (fieldsOf (eindirect frv) ! j)"
    using assms(1) j by (rule FieldByIndex_embedded)
  have inner: "FieldByIndex (eindirect frv) [j] = Inr (fieldsOf (eindirect frv) ! j)"
    using embedded_KStruct [OF assms(1)] j by (simp add: FieldByIndex_def Field_def)
  show ?case
    by (rule ext) (simp add: outer inner IH)
qed





text \<open>
  Embedding in two levels. \<open>twice_embedded\<close> is a struct with the fields
  \<^verbatim>\<open>P int\<close> and an embedded struct \<^verbatim>\<open>B\<close>, which embeds a struct \<^verbatim>\<open>C\<close> with the
  field \<^verbatim>\<open>X int\<close> and has the field \<^verbatim>\<open>Y int\<close> of its own. The call of \<^verbatim>\<open>addFields\<close>
  for \<^verbatim>\<open>C\<close> starts its index paths with the index of \<^verbatim>\<open>C\<close> in \<^verbatim>\<open>B\<close> alone, so
  the path of \<^verbatim>\<open>X\<close> is \<open>[0, 0]\<close> where \<^verbatim>\<open>FieldByIndex\<close> on the outer struct
  needs \<open>[1, 0, 0]\<close>; the walk along \<open>[0, 0]\<close> asks the int \<^verbatim>\<open>P\<close> for a field.
\<close>

definition twice_embedded :: gval where
  "twice_embedded = GStruct
     [(plain_named ''P'', GInt 0),
      (embedded_named ''B'', GStruct
         [(embedded_named ''C'', GStruct [(plain_named ''X'', GInt 1)]),
          (plain_named ''Y'', GInt 2)])]"

lemma twice_embedded_paths:
  "addFields [] 0 (fieldsOf twice_embedded) ([], []) = Inr ([[0], [0, 0], [1, 1]], [])
   \<and> EncodeToString verbs twice_embedded =
       Inl (Panic ''reflect: call of reflect.Value.Field on a value that is no struct'')"
  by code_simp

section \<open>The modifier\<close>

text \<open>\<open>noneAfter enc r\<close>: a run that starts in \<open>enc\<close> with no modifier active and
  ends well in \<open>r\<close> ends with no modifier active.\<close>

definition noneAfter :: "Encoder \<Rightarrow> abort + Encoder \<Rightarrow> bool" where
  "noneAfter enc r =
     (modifier enc = MOD_NONE \<longrightarrow> (case r of Inl _ \<Rightarrow> True | Inr enc' \<Rightarrow> modifier enc' = MOD_NONE))"

lemma noneAfter_Inl [simp]: "noneAfter enc (Inl a)"
  by (simp add: noneAfter_def)

lemma noneAfter_Inr: "modifier enc' = modifier enc \<Longrightarrow> noneAfter enc (Inr enc')"
  by (simp add: noneAfter_def)

lemma noneAfter_bindE:
  "noneAfter enc m \<Longrightarrow> (\<And>e. m = Inr e \<Longrightarrow> noneAfter e (f e)) \<Longrightarrow> noneAfter enc (bindE m f)"
  by (cases m) (auto simp: noneAfter_def)

lemma noneAfter_bindE_pure:
  "(\<And>x. m = Inr x \<Longrightarrow> noneAfter enc (f x)) \<Longrightarrow> noneAfter enc (bindE m f)"
  by (cases m) auto

lemma noneAfter_start: "modifier enc1 = modifier enc \<Longrightarrow> noneAfter enc1 r \<Longrightarrow> noneAfter enc r"
  by (simp add: noneAfter_def)

lemma modifier_newline: "modifier (newline enc) = modifier enc"
  by (simp add: newline_def modifier_wf)

lemma keyEqElement_resets: "keyEqElement verbs key val enc = Inr enc' \<Longrightarrow> modifier enc' = MOD_NONE"
  by (auto simp: keyEqElement_def bindE_eq_Inr Let_def split: if_splits)

lemma noneAfter_keyEqElement: "noneAfter enc (keyEqElement verbs key val enc0)"
  using keyEqElement_resets [of verbs key val enc0]
  by (cases "keyEqElement verbs key val enc0") (auto simp: noneAfter_def)

lemma encode_KString: "Kind sf = KString \<Longrightarrow> encode verbs key sf enc = keyEqElement verbs key sf enc"
  by (subst encode.simps) (auto split: dyntype.splits)

lemma validmodifiers_KString: "validmodifiers m = Some k \<Longrightarrow> k = KString"
  by (auto simp: validmodifiers_def split: if_splits)

lemma encode_keeps_none:
  "noneAfter enc (encode verbs key rv enc)"
  "noneAfter enc (eArrayOfTables verbs key rv enc)"
  "noneAfter enc (eArrayOfTablesLoop verbs key trvs enc)"
  "noneAfter enc (eTable verbs key rv enc)"
  "noneAfter enc (eMapOrStruct verbs key rv enc)"
  "noneAfter enc (eMap verbs key rv enc)"
  "noneAfter enc (writeMapKeys verbs key rv ks enc)"
  "noneAfter enc (eStruct verbs key rv enc)"
  "noneAfter enc (writeFields verbs key rv flds enc)"
proof (induction verbs key rv enc and verbs key rv enc and verbs key trvs enc
    and verbs key rv enc and verbs key rv enc and verbs key rv enc and verbs key rv ks enc
    and verbs key rv enc and verbs key rv flds enc
    rule: encode_eArrayOfTables_eArrayOfTablesLoop_eTable_eMapOrStruct_eMap_writeMapKeys_eStruct_writeFields.induct)
  case (1 verbs key rv enc)
  show ?case
  proof (cases "Kind rv = KInvalid")
    case True
    then show ?thesis by (subst encode.simps) simp
  next
    case valid: False
    show ?thesis
    proof (cases "typeSwitch rv")
      case (IsTime x1)
      with valid show ?thesis by (subst encode.simps) (simp add: noneAfter_keyEqElement)
    next
      case (IsTextMarshaler x2)
      with valid show ?thesis by (subst encode.simps) (simp add: noneAfter_keyEqElement)
    next
      case IsOther
      show ?thesis
      proof (cases "Kind rv")
        case KArray
        with valid IsOther 1(1) show ?thesis
          by (subst encode.simps) (auto intro!: noneAfter_bindE_pure simp: noneAfter_keyEqElement)
      next
        case KSlice
        with valid IsOther 1(2) show ?thesis
          by (subst encode.simps) (auto intro!: noneAfter_bindE_pure simp: noneAfter_keyEqElement)
      next
        case KInterface
        with valid IsOther 1(3) show ?thesis
          by (subst encode.simps) (auto intro: noneAfter_Inr)
      next
        case KMap
        with valid IsOther 1(4) show ?thesis
          by (subst encode.simps) (auto intro: noneAfter_Inr)
      next
        case KPtr
        with valid IsOther 1(5) show ?thesis
          by (subst encode.simps) (auto intro: noneAfter_Inr)
      next
        case KStruct
        with valid IsOther 1(6) show ?thesis
          by (subst encode.simps) auto
      qed (use valid IsOther in \<open>subst encode.simps, simp add: noneAfter_keyEqElement\<close>)+
    qed
  qed
next
  case (2 verbs key rv enc)
  then show ?case
    by (subst eArrayOfTables.simps) (auto intro!: noneAfter_bindE_pure)
next
  case (3 verbs key enc)
  show ?case by (simp add: noneAfter_Inr)
next
  case (4 verbs key trv rest enc)
  show ?case
  proof (cases "isNil trv")
    case True
    with 4(1) show ?thesis by simp
  next
    case False
    have "noneAfter enc (bindE (eMapOrStruct verbs key trv
                      (newline (wf (newline enc) (ind @ ''[['' @ Key_String key @ '']]''))))
              (eArrayOfTablesLoop verbs key rest))" if i: "indentStr enc key = Inr ind" for ind
    proof (rule noneAfter_start [of "newline (wf (newline enc) (ind @ ''[['' @ Key_String key @ '']]''))"])
      show "modifier (newline (wf (newline enc) (ind @ ''[['' @ Key_String key @ '']]''))) = modifier enc"
        by (simp add: modifier_newline modifier_wf)
      show "noneAfter (newline (wf (newline enc) (ind @ ''[['' @ Key_String key @ '']]'')))
         (bindE (eMapOrStruct verbs key trv
                      (newline (wf (newline enc) (ind @ ''[['' @ Key_String key @ '']]''))))
              (eArrayOfTablesLoop verbs key rest))"
        using 4(2) [OF False i] 4(3) [OF False i] by (rule noneAfter_bindE)
    qed
    with False show ?thesis by (auto intro!: noneAfter_bindE_pure)
  qed
next
  case (5 verbs key rv enc)
  show ?case
  proof (subst eTable.simps, rule noneAfter_bindE)
    show "noneAfter enc (if 0 < length key
            then bindE (panicIfInvalidKey key True) (\<lambda>_.
                   bindE (indentStr enc key) (\<lambda>ind.
                     Inr (newline (wf (if length key = 1 then newline enc else enc)
                                      (ind @ ''['' @ Key_String key @ '']'')))))
            else Inr (if length key = 1 then newline enc else enc))"
      by (auto intro!: noneAfter_bindE_pure noneAfter_Inr simp: modifier_newline modifier_wf)
  next
    fix e
    assume "(if 0 < length key
            then bindE (panicIfInvalidKey key True) (\<lambda>_.
                   bindE (indentStr enc key) (\<lambda>ind.
                     Inr (newline (wf (if length key = 1 then newline enc else enc)
                                      (ind @ ''['' @ Key_String key @ '']'')))))
            else Inr (if length key = 1 then newline enc else enc)) = Inr e"
    then show "noneAfter e (eMapOrStruct verbs key rv e)" by (rule 5)
  qed
next
  case (6 verbs key rv enc)
  then show ?case by (subst eMapOrStruct.simps) auto
next
  case (7 verbs key rv enc)
  show ?case
  proof (cases "Kind rv = KMap \<and> keyType rv \<noteq> OtherKey")
    case False
    then show ?thesis by (subst eMap.simps) auto
  next
    case True
    then have k: "\<not> Kind rv \<noteq> KMap" and s: "keyType rv \<noteq> OtherKey" by simp_all
    have "noneAfter enc (bindE (writeMapKeys verbs key rv (sort (fst ks)) enc)
               (writeMapKeys verbs key rv (sort (snd ks))))"
      if m: "mapKeysSplit (mapEntries rv) (MapKeys (mapEntries rv)) ([], []) = Inr ks" for ks
      using 7(1) [OF k s m] 7(2) [OF k s m] by (rule noneAfter_bindE)
    with True show ?thesis
      by (subst eMap.simps) (auto intro!: noneAfter_bindE_pure)
  qed
next
  case (8 verbs key rv enc)
  show ?case by (simp add: noneAfter_Inr)
next
  case (9 verbs key rv mapKey rest enc)
  have "noneAfter enc
      (if isNil mrv then writeMapKeys verbs key rv rest enc
       else bindE (encode verbs (Key_add key mapKey) mrv enc) (writeMapKeys verbs key rv rest))"
    if m: "MapIndexOfString rv mapKey = Inr mrv" for mrv
  proof (cases "isNil mrv")
    case True
    with 9(1) [OF m] show ?thesis by simp
  next
    case False
    with 9(2) [OF m False] 9(3) [OF m False] show ?thesis
      by (auto intro: noneAfter_bindE)
  qed
  then show ?case by (auto intro!: noneAfter_bindE_pure)
next
  case (10 verbs key rv enc)
  show ?case
  proof (subst eStruct.simps, rule noneAfter_bindE_pure)
    fix flds
    assume a: "addFields [] 0 (fieldsOf rv) ([], []) = Inr flds"
    show "noneAfter enc (bindE (writeFields verbs key rv (fst flds) enc)
        (writeFields verbs key rv (snd flds)))"
      using 10(1) [OF a] 10(2) [OF a] by (rule noneAfter_bindE)
  qed
next
  case (11 verbs key rv enc)
  show ?case by (simp add: noneAfter_Inr)
next
  case (12 verbs key rv fieldIndex rest enc)
  have "noneAfter enc
      (if isNil (snd sfv) then writeFields verbs key rv rest enc
       else if Tag_toml (fst sfv) = ''-'' then writeFields verbs key rv rest enc
       else bindE (encode verbs
                     (Key_add key (if Tag_toml (fst sfv) = [] then Name (fst sfv) else Tag_toml (fst sfv)))
                     (snd sfv)
                     (if validmodifiers (Tag_modifier (fst sfv)) = Some (Kind (snd sfv))
                      then enc\<lparr>modifier := Tag_modifier (fst sfv)\<rparr>
                      else enc\<lparr>modifier := MOD_NONE\<rparr>))
              (writeFields verbs key rv rest))"
    if f: "FieldByIndex rv fieldIndex = Inr sfv" for sfv
  proof (cases "isNil (snd sfv)")
    case True
    with 12(1) [OF f] show ?thesis by simp
  next
    case notnil: False
    show ?thesis
    proof (cases "Tag_toml (fst sfv) = ''-''")
      case True
      with notnil 12(2) [OF f] show ?thesis by simp
    next
      case False
      let ?k = "Key_add key (if Tag_toml (fst sfv) = [] then Name (fst sfv) else Tag_toml (fst sfv))"
      let ?e = "if validmodifiers (Tag_modifier (fst sfv)) = Some (Kind (snd sfv))
                      then enc\<lparr>modifier := Tag_modifier (fst sfv)\<rparr>
                      else enc\<lparr>modifier := MOD_NONE\<rparr>"
      have first: "noneAfter enc (encode verbs ?k (snd sfv) ?e)"
      proof (cases "validmodifiers (Tag_modifier (fst sfv)) = Some (Kind (snd sfv))")
        case True
        then have "Kind (snd sfv) = KString" by (auto dest: validmodifiers_KString)
        then show ?thesis by (simp add: encode_KString noneAfter_keyEqElement)
      next
        case False
        have "noneAfter ?e (encode verbs ?k (snd sfv) ?e)"
          using notnil \<open>Tag_toml (fst sfv) \<noteq> ''-''\<close> by (rule 12(3) [OF f])
        with False show ?thesis by (simp add: noneAfter_def)
      qed
      have "noneAfter enc (bindE (encode verbs ?k (snd sfv) ?e) (writeFields verbs key rv rest))"
      proof (cases "encode verbs ?k (snd sfv) ?e")
        case (Inl a)
        then show ?thesis by simp
      next
        case (Inr e')
        have "noneAfter e' (writeFields verbs key rv rest e')"
          using notnil \<open>Tag_toml (fst sfv) \<noteq> ''-''\<close> Inr by (rule 12(4) [OF f])
        with first Inr show ?thesis by (simp add: noneAfter_def)
      qed
      with notnil False show ?thesis by simp
    qed
  qed
  then show ?case by (auto intro!: noneAfter_bindE_pure)
qed


text \<open>The struct of the witness of claim C9: a string field tagged
  \<^verbatim>\<open>multiline_string\<close>, an untagged string field, an int field that carries the
  same tag, and a field that is a map of strings.\<close>

definition tagged_struct :: gval where
  "tagged_struct = GStruct
     [(multiline_field, GString ''x''),
      (\<lparr>Name = ''T'', PkgPath = [], Anonymous = False, Tag_toml = [], Tag_modifier = []\<rparr>,
       GString ''y''),
      (\<lparr>Name = ''N'', PkgPath = [], Anonymous = False, Tag_toml = [],
        Tag_modifier = MOD_MULTILINE_STRING\<rparr>, GInt 1),
      (\<lparr>Name = ''M'', PkgPath = [], Anonymous = False, Tag_toml = [], Tag_modifier = []\<rparr>,
       GMap StringKey (Some [(''k'', GString ''v'')]))]"

text \<open>
  Claim C9. A run of \<^verbatim>\<open>encode\<close>, so also of \<^verbatim>\<open>Encode\<close>, that starts with no
  modifier active and ends well ends with no modifier active; \<^verbatim>\<open>keyEqElement\<close>
  always ends with none active, whatever it started with. An entry of kind
  String is written by one call of \<^verbatim>\<open>keyEqElement\<close>, so it has no descendants.
  No modifier is valid for a field whose kind is not String. For a field
  that is written, \<^verbatim>\<open>writeFields\<close> sets the modifier from the tag and kind of
  that field alone before it encodes the field, whatever modifier was
  active before.
\<close>

theorem modifier_scoped_to_one_entry:
  assumes "modifier enc = MOD_NONE"
  shows "(encode verbs key rv enc = Inr enc' \<longrightarrow> modifier enc' = MOD_NONE)
     \<and> (Encode verbs rv enc = Inr enc' \<longrightarrow> modifier enc' = MOD_NONE)
     \<and> (keyEqElement verbs key val enc0 = Inr enc1 \<longrightarrow> modifier enc1 = MOD_NONE)
     \<and> (Kind sf = KString \<longrightarrow> encode verbs key sf enc0 = keyEqElement verbs key sf enc0)
     \<and> (Kind sf \<noteq> KString \<longrightarrow> validmodifiers m \<noteq> Some (Kind sf))
     \<and> (FieldByIndex st fieldIndex = Inr (sft, sf) \<and> \<not> isNil sf \<and> Tag_toml sft \<noteq> ''-'' \<longrightarrow>
          writeFields verbs key st (fieldIndex # rest) enc0 =
            bindE (encode verbs (Key_add key (if Tag_toml sft = [] then Name sft else Tag_toml sft)) sf
                     (enc0\<lparr>modifier := (if validmodifiers (Tag_modifier sft) = Some (Kind sf)
                                         then Tag_modifier sft else MOD_NONE)\<rparr>))
                  (writeFields verbs key st rest))"
proof -
  have a: "encode verbs key rv enc = Inr enc' \<longrightarrow> modifier enc' = MOD_NONE"
    using encode_keeps_none(1) [of enc verbs key rv] assms by (auto simp: noneAfter_def)
  have b: "Encode verbs rv enc = Inr enc' \<longrightarrow> modifier enc' = MOD_NONE"
    using encode_keeps_none(1) [of enc verbs "[]" "eindirect rv"] assms
    by (auto simp: noneAfter_def Encode_def)
  have c: "keyEqElement verbs key val enc0 = Inr enc1 \<longrightarrow> modifier enc1 = MOD_NONE"
    by (auto dest: keyEqElement_resets)
  have d: "Kind sf = KString \<longrightarrow> encode verbs key sf enc0 = keyEqElement verbs key sf enc0"
    by (simp add: encode_KString)
  have e: "Kind sf \<noteq> KString \<longrightarrow> validmodifiers m \<noteq> Some (Kind sf)"
    by (auto dest: validmodifiers_KString)
  have f: "FieldByIndex st fieldIndex = Inr (sft, sf) \<and> \<not> isNil sf \<and> Tag_toml sft \<noteq> ''-'' \<longrightarrow>
          writeFields verbs key st (fieldIndex # rest) enc0 =
            bindE (encode verbs (Key_add key (if Tag_toml sft = [] then Name sft else Tag_toml sft)) sf
                     (enc0\<lparr>modifier := (if validmodifiers (Tag_modifier sft) = Some (Kind sf)
                                         then Tag_modifier sft else MOD_NONE)\<rparr>))
                  (writeFields verbs key st rest)"
    by (auto intro!: arg_cong2 [where f = bindE] arg_cong [where f = "encode verbs _ sf"])
  from a b c d e f show ?thesis by blast
qed

theorem modifier_scoped_to_one_entry_witness:
  "Encode noVerbs tagged_struct NewEncoder =
     Inr \<lparr>Indent = ''  '', hasWritten = True,
          w = ''S = '' @ [DQUOTE, DQUOTE, DQUOTE] @ ''x'' @ [DQUOTE, DQUOTE, DQUOTE] @ [LF] @
              ''T = '' @ [DQUOTE] @ ''y'' @ [DQUOTE] @ [LF] @
              ''N = 1'' @ [LF, LF] @
              ''[M]'' @ [LF] @ ''  k = '' @ [DQUOTE] @ ''v'' @ [DQUOTE] @ [LF],
          modifier = MOD_NONE\<rparr>
   \<and> modifier NewEncoder = MOD_NONE"
proof -
  have n: "modifier NewEncoder = MOD_NONE"
    by (simp add: NewEncoder_def)
  have ev: "Encode noVerbs tagged_struct NewEncoder =
     Inr \<lparr>Indent = ''  '', hasWritten = True,
          w = ''S = '' @ [DQUOTE, DQUOTE, DQUOTE] @ ''x'' @ [DQUOTE, DQUOTE, DQUOTE] @ [LF] @
              ''T = '' @ [DQUOTE] @ ''y'' @ [DQUOTE] @ [LF] @
              ''N = 1'' @ [LF, LF] @
              ''[M]'' @ [LF] @ ''  k = '' @ [DQUOTE] @ ''v'' @ [DQUOTE] @ [LF],
          modifier = []\<rparr>"
    by code_simp
  show ?thesis
    using modifier_scoped_to_one_entry [OF n, of noVerbs "[]" tagged_struct] ev n
    by (simp add: MOD_NONE_def)
qed

end
